theory Spec2Isabelle
  imports
    Main
    "HOL-Library.Sublist"
    "HOL-Library.AList"
    "HOL-Library.Char_ord"
    "HOL-Library.List_Lexorder"
begin

section \<open>The ingestion fetcher of chi-311-quality (src/fetch.py)\<close>

text \<open>
  The embedding follows \<^verbatim>\<open>src/fetch.py\<close>. The remote source, the URL encoding of
  \<^verbatim>\<open>requests\<close>, the date parser of \<^verbatim>\<open>pandas.to_datetime\<close>, the clock and
  \<^verbatim>\<open>strftime\<close> are parameters, collected in the record \<open>env\<close>. Every request is
  appended to a log that is threaded through the fetch, so that "which requests were sent,
  in which order" is a value theorems can speak about.
\<close>

subsection \<open>Records, cells and frames\<close>

datatype jval = JStr string | JNum int | JBool bool | JNull

text \<open>A record as the remote source returns it: a JSON object, keys in document order.\<close>

type_synonym json_row = "(string \<times> jval) list"

text \<open>
  A cell of a data frame is either the value as received or, once its column went through
  \<^verbatim>\<open>pd.to_datetime(..., errors="coerce", utc=True)\<close>, a UTC timestamp in nanoseconds,
  \<open>Stamp None\<close> being NaT. A key missing from a row is a missing cell (NaN).
\<close>

datatype cell = Raw jval | Stamp "int option"

type_synonym row = "(string \<times> cell) list"

record frame =
  df_columns :: "string list"
  df_rows :: "row list"

definition uniq :: "'a list \<Rightarrow> 'a list" where
  "uniq xs = rev (remdups (rev xs))"

text \<open>\<^verbatim>\<open>pd.DataFrame(rows)\<close>: the columns are the keys in order of first appearance.\<close>

definition DataFrame :: "json_row list \<Rightarrow> frame" where
  "DataFrame rs =
     \<lparr>df_columns = uniq (concat (map (map fst) rs)),
      df_rows = map (map (\<lambda>(k, v). (k, Raw v))) rs\<rparr>"

text \<open>\<^verbatim>\<open>pd.DataFrame()\<close>\<close>

definition empty_frame :: frame where
  "empty_frame = \<lparr>df_columns = [], df_rows = []\<rparr>"

text \<open>\<^verbatim>\<open>pd.concat(frames, ignore_index=True)\<close>\<close>

definition pd_concat :: "frame list \<Rightarrow> frame" where
  "pd_concat fs =
     \<lparr>df_columns = uniq (concat (map df_columns fs)),
      df_rows = concat (map df_rows fs)\<rparr>"

text \<open>\<^verbatim>\<open>df.empty\<close>: true when either axis has length 0.\<close>

definition df_empty :: "frame \<Rightarrow> bool" where
  "df_empty df = (df_rows df = [] \<or> df_columns df = [])"

subsection \<open>Requests, responses and the request log\<close>

record request =
  q_headers :: "(string \<times> string) list"
  q_where :: "string option"
  q_limit :: int
  q_offset :: "int option"
  q_order :: "string option"

text \<open>
  A response: the status code, the body as text (\<^verbatim>\<open>r.text\<close>) and the body decoded by
  \<^verbatim>\<open>r.json()\<close>, a JSON array of objects as the protocol of the remote source has it.
\<close>

record response =
  r_status_code :: nat
  r_text :: string
  r_json :: "json_row list"

text \<open>Which statement of \<^verbatim>\<open>fetch.py\<close> issued a request.\<close>

datatype stage = SchemaProbe | RawProbe string | CastProbe string | FilteredPage | BlindPage

type_synonym log = "(stage \<times> request \<times> response) list"

record env =
  remote :: "request list \<Rightarrow> response"
  url_of :: "request \<Rightarrow> string"
  to_datetime :: "jval \<Rightarrow> int option"
  now :: int
  strftime :: "int \<Rightarrow> string"

definition requests_of :: "log \<Rightarrow> request list" where
  "requests_of lg = map (\<lambda>e. fst (snd e)) lg"

definition stages_of :: "log \<Rightarrow> stage list" where
  "stages_of lg = map fst lg"

text \<open>
  \<^verbatim>\<open>requests.get\<close>: the remote source answers the request, given all requests of this
  fetch so far (it may answer the same request differently the second time).
\<close>

definition http_get :: "env \<Rightarrow> log \<Rightarrow> stage \<Rightarrow> request \<Rightarrow> response \<times> log" where
  "http_get e lg st rq =
     (let rs = remote e (requests_of lg @ [rq]) in (rs, lg @ [(st, rq, rs)]))"

text \<open>\<^verbatim>\<open>r.raise_for_status()\<close> raises on a 4xx or 5xx status.\<close>

definition http_error :: "response \<Rightarrow> bool" where
  "http_error r = (400 \<le> r_status_code r \<and> r_status_code r < 600)"

datatype error =
    HTTPError nat string
  | OverrideNotFound string "string list"
  | NoDateColumn "string list" "string list"

subsection \<open>Constants and small helpers\<close>

definition DATE_FIELD_CANDIDATES :: "string list" where
  "DATE_FIELD_CANDIDATES =
     [''requested_datetime'', ''last_modified_date'', ''closed_date'', ''created_date'',
      ''creation_date'', ''open_date'', ''sr_created_date'', ''date_created'']"

definition digit_char :: "nat \<Rightarrow> char" where
  "digit_char d = char_of (48 + d)"

fun show_nat :: "nat \<Rightarrow> string" where
  "show_nat n = (if n < 10 then [digit_char n] else show_nat (n div 10) @ [digit_char (n mod 10)])"

declare show_nat.simps [simp del]

definition mk_headers :: "string option \<Rightarrow> (string \<times> string) list" where
  "mk_headers app_token =
     (case app_token of
        None \<Rightarrow> []
      | Some t \<Rightarrow> if t \<noteq> [] then [(''X-App-Token'', t)] else [])"

subsection \<open>\<^verbatim>\<open>_sample_columns\<close>\<close>

definition schema_request :: "(string \<times> string) list \<Rightarrow> request" where
  "schema_request hs =
     \<lparr>q_headers = hs, q_where = None, q_limit = 1, q_offset = None, q_order = None\<rparr>"

definition sample_columns :: "env \<Rightarrow> (string \<times> string) list \<Rightarrow> log \<Rightarrow> (error + string list) \<times> log" where
  "sample_columns e hs lg =
     (let rq = schema_request hs;
          p = http_get e lg SchemaProbe rq;
          r = fst p; lg' = snd p
      in if http_error r then (Inl (HTTPError (r_status_code r) (url_of e rq)), lg')
         else (Inr (case r_json r of [] \<Rightarrow> [] | first # _ \<Rightarrow> map fst first), lg'))"

subsection \<open>\<^verbatim>\<open>_try_page\<close>\<close>

definition exit_message :: "env \<Rightarrow> request \<Rightarrow> response \<Rightarrow> string" where
  "exit_message e rq r =
     ''HTTP '' @ show_nat (r_status_code r) @ '' from Socrata.'' @ [CHR 0x0A] @
     ''URL: '' @ url_of e rq @ [CHR 0x0A] @
     ''Message: '' @ take 800 (r_text r)"

definition probe_request :: "(string \<times> string) list \<Rightarrow> string \<Rightarrow> string \<Rightarrow> int \<Rightarrow> request" where
  "probe_request hs where_expr order_col chunk =
     \<lparr>q_headers = hs, q_where = Some where_expr, q_limit = chunk, q_offset = Some 0,
      q_order = Some order_col\<rparr>"

text \<open>The result is \<open>Inl msg\<close> for \<^verbatim>\<open>raise SystemExit(msg)\<close>.\<close>

definition try_page ::
  "env \<Rightarrow> (string \<times> string) list \<Rightarrow> stage \<Rightarrow> string \<Rightarrow> string \<Rightarrow> int \<Rightarrow> log
     \<Rightarrow> (string + json_row list) \<times> log" where
  "try_page e hs st where_expr order_col chunk lg =
     (let rq = probe_request hs where_expr order_col chunk;
          p = http_get e lg st rq;
          r = fst p; lg' = snd p
      in if http_error r then (Inl (exit_message e rq r), lg') else (Inr (r_json r), lg'))"

subsection \<open>Negotiation: the loop over \<^verbatim>\<open>date_cols_to_try\<close>\<close>

text \<open>The test on \<^verbatim>\<open>str(e_raw)\<close> that decides whether the cast form is tried.\<close>

definition type_mismatch :: "string \<Rightarrow> bool" where
  "type_mismatch msg =
     (sublist ''type-mismatch'' msg \<or> sublist ''Type mismatch'' msg \<or> sublist ''op$>='' msg)"

definition raw_where :: "string \<Rightarrow> string \<Rightarrow> string" where
  "raw_where dc since_str = dc @ '' >= '' @ [CHR 0x27] @ since_str @ [CHR 0x27]"

definition cast_col :: "string \<Rightarrow> string" where
  "cast_col dc = dc @ ''::floating_timestamp''"

definition cast_where :: "string \<Rightarrow> string \<Rightarrow> string" where
  "cast_where dc since_str = cast_col dc @ '' >= '' @ [CHR 0x27] @ since_str @ [CHR 0x27]"

text \<open>
  The result is \<open>Some (working_where, working_order, first_rows)\<close> after a \<^verbatim>\<open>break\<close>,
  \<open>None\<close> when the loop runs out of candidates (\<^verbatim>\<open>working_where is None\<close>).
\<close>

fun negotiate ::
  "env \<Rightarrow> (string \<times> string) list \<Rightarrow> string \<Rightarrow> int \<Rightarrow> string list \<Rightarrow> log
     \<Rightarrow> (string \<times> string \<times> json_row list) option \<times> log" where
  "negotiate e hs since_str chunk [] lg = (None, lg)"
| "negotiate e hs since_str chunk (dc # dcs) lg =
     (case try_page e hs (RawProbe dc) (raw_where dc since_str) dc (min 5 chunk) lg of
        (Inr first_rows, lg1) \<Rightarrow> (Some (raw_where dc since_str, dc, first_rows), lg1)
      | (Inl msg, lg1) \<Rightarrow>
          if type_mismatch msg then
            (case try_page e hs (CastProbe dc) (cast_where dc since_str) (cast_col dc)
                    (min 5 chunk) lg1 of
               (Inr first_rows, lg2) \<Rightarrow> (Some (cast_where dc since_str, cast_col dc, first_rows), lg2)
             | (Inl _, lg2) \<Rightarrow> negotiate e hs since_str chunk dcs lg2)
          else negotiate e hs since_str chunk dcs lg1)"

subsection \<open>The Server-Filtered Pager\<close>

definition page_request ::
  "(string \<times> string) list \<Rightarrow> string \<Rightarrow> string \<Rightarrow> int \<Rightarrow> int \<Rightarrow> request" where
  "page_request hs working_where working_order chunk offset =
     \<lparr>q_headers = hs, q_where = Some working_where, q_limit = chunk, q_offset = Some offset,
      q_order = Some working_order\<rparr>"

text \<open>
  The \<^verbatim>\<open>while True\<close> loop of the filtered branch. It has no bound of its own: against a
  remote source that keeps returning full pages it does not return, which is the value
  \<open>None\<close> here.
\<close>

partial_function (option) filtered_pages ::
  "env \<Rightarrow> (string \<times> string) list \<Rightarrow> string \<Rightarrow> string \<Rightarrow> int \<Rightarrow> int \<Rightarrow> frame list \<Rightarrow> log
     \<Rightarrow> ((error + frame list) \<times> log) option" where
  "filtered_pages e hs working_where working_order chunk offset frames lg =
     (let rq = page_request hs working_where working_order chunk offset;
          p = http_get e lg FilteredPage rq;
          r = fst p; lg' = snd p; rows = r_json r
      in if http_error r then Some (Inl (HTTPError (r_status_code r) (url_of e rq)), lg')
         else if rows = [] then Some (Inr frames, lg')
         else if int (length rows) < chunk then Some (Inr (frames @ [DataFrame rows]), lg')
         else filtered_pages e hs working_where working_order chunk
                (offset + int (length rows)) (frames @ [DataFrame rows]) lg')"

declare filtered_pages.simps [code]

subsection \<open>The Fallback Blind Pager\<close>

definition blind_request :: "(string \<times> string) list \<Rightarrow> string option \<Rightarrow> int \<Rightarrow> int \<Rightarrow> request" where
  "blind_request hs order_col chunk offset =
     \<lparr>q_headers = hs, q_where = None, q_limit = chunk, q_offset = Some offset,
      q_order = (case order_col of None \<Rightarrow> None | Some c \<Rightarrow> if c \<noteq> [] then Some c else None)\<rparr>"

text \<open>\<^verbatim>\<open>pd.to_datetime(x, errors="coerce", utc=True)\<close> on one cell.\<close>

definition to_datetime_cell :: "env \<Rightarrow> cell option \<Rightarrow> cell" where
  "to_datetime_cell e c =
     (case c of
        None \<Rightarrow> Stamp None
      | Some (Raw v) \<Rightarrow> Stamp (to_datetime e v)
      | Some (Stamp t) \<Rightarrow> Stamp t)"

text \<open>\<^verbatim>\<open>page_df[c] = pd.to_datetime(page_df[c], errors="coerce", utc=True)\<close>\<close>

definition parse_column :: "env \<Rightarrow> string \<Rightarrow> frame \<Rightarrow> frame" where
  "parse_column e c df =
     df\<lparr>df_rows := map (\<lambda>r. AList.update c (to_datetime_cell e (map_of r c)) r) (df_rows df)\<rparr>"

text \<open>One entry of \<^verbatim>\<open>page_df[c].notna()\<close> and of \<^verbatim>\<open>page_df[c] >= since_dt\<close>.\<close>

definition notna :: "row \<Rightarrow> string \<Rightarrow> bool" where
  "notna r c = (case map_of r c of Some (Stamp (Some t)) \<Rightarrow> True | Some (Raw v) \<Rightarrow> v \<noteq> JNull | _ \<Rightarrow> False)"

definition ge_since :: "int \<Rightarrow> row \<Rightarrow> string \<Rightarrow> bool" where
  "ge_since since_dt r c = (case map_of r c of Some (Stamp (Some t)) \<Rightarrow> since_dt \<le> t | _ \<Rightarrow> False)"

text \<open>\<^verbatim>\<open>page_df[c].dtype.kind == 'M'\<close>: the column holds timestamps.\<close>

definition dtype_kind_M :: "frame \<Rightarrow> string \<Rightarrow> bool" where
  "dtype_kind_M df c =
     list_all (\<lambda>r. case map_of r c of Some (Stamp t) \<Rightarrow> True | _ \<Rightarrow> False) (df_rows df)"

text \<open>The first loop over the candidates: parse, and compute \<^verbatim>\<open>any_newer\<close>.\<close>

fun parse_candidates :: "env \<Rightarrow> int \<Rightarrow> string list \<Rightarrow> frame \<times> bool \<Rightarrow> frame \<times> bool" where
  "parse_candidates e since_dt [] st = st"
| "parse_candidates e since_dt (c # cs) (page_df, any_newer) =
     (if c \<in> set (df_columns page_df) then
        (let page_df' = parse_column e c page_df
         in parse_candidates e since_dt cs
              (page_df',
               if list_ex (\<lambda>r. notna r c) (df_rows page_df')
                  \<and> list_ex (\<lambda>r. ge_since since_dt r c) (df_rows page_df')
               then True else any_newer))
      else parse_candidates e since_dt cs (page_df, any_newer))"

text \<open>The second loop: \<^verbatim>\<open>mask_newer\<close>, \<open>None\<close> while no column contributed.\<close>

fun mask_newer :: "int \<Rightarrow> frame \<Rightarrow> string list \<Rightarrow> bool list option \<Rightarrow> bool list option" where
  "mask_newer since_dt page_df [] m = m"
| "mask_newer since_dt page_df (c # cs) m =
     (if c \<in> set (df_columns page_df) \<and> dtype_kind_M page_df c then
        (let cond = map (\<lambda>r. ge_since since_dt r c) (df_rows page_df)
         in mask_newer since_dt page_df cs
              (Some (case m of None \<Rightarrow> cond | Some m' \<Rightarrow> map2 (\<or>) m' cond)))
      else mask_newer since_dt page_df cs m)"

text \<open>\<^verbatim>\<open>page_df[mask]\<close>\<close>

definition select_rows :: "frame \<Rightarrow> bool list \<Rightarrow> frame" where
  "select_rows df m = df\<lparr>df_rows := map fst (filter snd (zip (df_rows df) m))\<rparr>"

text \<open>The body of the \<^verbatim>\<open>for rows in ...\<close> loop up to \<^verbatim>\<open>kept\<close>: the result is \<open>(kept, any_newer)\<close>.\<close>

definition process_page :: "env \<Rightarrow> int \<Rightarrow> string list \<Rightarrow> json_row list \<Rightarrow> frame \<times> bool" where
  "process_page e since_dt date_cols_to_try rows =
     (let st = parse_candidates e since_dt date_cols_to_try (DataFrame rows, False);
          page_df = fst st; any_newer = snd st
      in (case mask_newer since_dt page_df date_cols_to_try None of
            Some m \<Rightarrow> select_rows page_df m
          | None \<Rightarrow> page_df,
          any_newer))"

text \<open>
  The generator \<^verbatim>\<open>_page_iter_no_where\<close> and the loop that consumes it, as one function:
  request a page; stop on an empty one; process it; stop on the heuristic; stop on the
  cap; otherwise the generator advances the offset and stops on a short page.
\<close>

function blind_pages ::
  "env \<Rightarrow> (string \<times> string) list \<Rightarrow> string option \<Rightarrow> int \<Rightarrow> int \<Rightarrow> string list \<Rightarrow> int
     \<Rightarrow> int \<Rightarrow> int \<Rightarrow> frame list \<Rightarrow> log \<Rightarrow> (error + frame list) \<times> log" where
  "blind_pages e hs order_col chunk max_pages date_cols_to_try since_dt
       offset pages_scanned kept_frames lg =
     (let rq = blind_request hs order_col chunk offset;
          p = http_get e lg BlindPage rq;
          r = fst p; lg' = snd p; rows = r_json r
      in if http_error r then (Inl (HTTPError (r_status_code r) (url_of e rq)), lg')
         else if rows = [] then (Inr kept_frames, lg')
         else
           (let pr = process_page e since_dt date_cols_to_try rows;
                kept = fst pr; any_newer = snd pr;
                kept_frames' = (if \<not> df_empty kept then kept_frames @ [kept] else kept_frames)
            in if \<not> any_newer \<and> kept_frames' \<noteq> [] then (Inr kept_frames', lg')
               else if pages_scanned + 1 \<ge> max_pages then (Inr kept_frames', lg')
               else if int (length rows) < chunk then (Inr kept_frames', lg')
               else blind_pages e hs order_col chunk max_pages date_cols_to_try since_dt
                      (offset + int (length rows)) (pages_scanned + 1) kept_frames' lg'))"
  by pat_completeness auto
termination
  by (relation "measure (\<lambda>(e, hs, oc, chunk, max_pages, dcs, sd, offset, pages_scanned, kf, lg).
        nat (max_pages - pages_scanned))") auto

declare blind_pages.simps [simp del]

subsection \<open>\<^verbatim>\<open>fetch_api\<close>\<close>

text \<open>The choice of \<^verbatim>\<open>date_cols_to_try\<close>; \<^verbatim>\<open>if created_field:\<close> is false for \<^verbatim>\<open>None\<close> and for \<^verbatim>\<open>""\<close>.\<close>

definition truthy :: "string option \<Rightarrow> bool" where
  "truthy s = (case s of None \<Rightarrow> False | Some x \<Rightarrow> x \<noteq> [])"

definition sorted_cols :: "string list \<Rightarrow> string list" where
  "sorted_cols cols = sort (remdups cols)"

definition choose_date_cols :: "string option \<Rightarrow> string list \<Rightarrow> error + string list" where
  "choose_date_cols created_field cols =
     (if truthy created_field then
        (if the created_field \<notin> set cols
         then Inl (OverrideNotFound (the created_field) (sorted_cols cols))
         else Inr [the created_field])
      else
        (let date_cols_to_try = filter (\<lambda>c. c \<in> set cols) DATE_FIELD_CANDIDATES
         in if date_cols_to_try = []
            then Inl (NoDateColumn DATE_FIELD_CANDIDATES (sorted_cols cols))
            else Inr date_cols_to_try))"

text \<open>\<^verbatim>\<open>datetime.now(timezone.utc) - timedelta(days=days_back)\<close>, in nanoseconds.\<close>

definition cutoff :: "env \<Rightarrow> int \<Rightarrow> int" where
  "cutoff e days_back = now e - days_back * 86400000000000"

definition finish :: "(error + frame list) \<times> log \<Rightarrow> (error + frame) \<times> log" where
  "finish p =
     (case fst p of
        Inl err \<Rightarrow> (Inl err, snd p)
      | Inr frames \<Rightarrow> (Inr (if frames \<noteq> [] then pd_concat frames else empty_frame), snd p))"

text \<open>
  The filtered branch, from \<^verbatim>\<open>frames = []\<close> to \<^verbatim>\<open>return df\<close>, and the fallback branch,
  from \<^verbatim>\<open>order_col = None\<close> to the last \<^verbatim>\<open>return\<close>.
\<close>

definition server_filtered ::
  "env \<Rightarrow> (string \<times> string) list \<Rightarrow> int \<Rightarrow> string \<Rightarrow> string \<Rightarrow> json_row list \<Rightarrow> log
     \<Rightarrow> ((error + frame) \<times> log) option" where
  "server_filtered e hs chunk working_where working_order first_rows lg =
     (let frames = (if first_rows \<noteq> [] then [DataFrame first_rows] else []);
          start_offset = (if first_rows \<noteq> [] then int (length first_rows) else 0)
      in map_option finish
           (filtered_pages e hs working_where working_order chunk start_offset frames lg))"

definition fallback ::
  "env \<Rightarrow> (string \<times> string) list \<Rightarrow> int \<Rightarrow> int \<Rightarrow> string list \<Rightarrow> string list \<Rightarrow> int \<Rightarrow> log
     \<Rightarrow> (error + frame) \<times> log" where
  "fallback e hs chunk max_pages cols date_cols_to_try since_dt lg =
     (let order_col = find (\<lambda>dc. dc \<in> set cols) date_cols_to_try
      in finish (blind_pages e hs order_col chunk max_pages date_cols_to_try since_dt 0 0 [] lg))"

text \<open>
  \<^verbatim>\<open>fetch_api\<close>. The result is \<open>None\<close> when the call does not return, \<open>Some (Inl err, log)\<close>
  when it raises and \<open>Some (Inr df, log)\<close> when it returns the frame \<open>df\<close>; \<open>log\<close> holds
  the requests sent, in order.
\<close>

definition fetch_api ::
  "env \<Rightarrow> int \<Rightarrow> int \<Rightarrow> string option \<Rightarrow> string option \<Rightarrow> int \<Rightarrow> ((error + frame) \<times> log) option" where
  "fetch_api e days_back chunk app_token created_field max_pages =
     (let hs = mk_headers app_token in
      case sample_columns e hs [] of
        (Inl err, lg) \<Rightarrow> Some (Inl err, lg)
      | (Inr cols, lg) \<Rightarrow>
          (case choose_date_cols created_field cols of
             Inl err \<Rightarrow> Some (Inl err, lg)
           | Inr date_cols_to_try \<Rightarrow>
               (let since_dt = cutoff e days_back;
                    since_str = strftime e since_dt
                in case negotiate e hs since_str chunk date_cols_to_try lg of
                     (Some (working_where, working_order, first_rows), lg1) \<Rightarrow>
                       server_filtered e hs chunk working_where working_order first_rows lg1
                   | (None, lg1) \<Rightarrow>
                       Some (fallback e hs chunk max_pages cols date_cols_to_try since_dt lg1))))"

subsection \<open>Example remote sources\<close>

text \<open>
  Small environments on which the definitions are evaluated. Their date parser reads a
  JSON number as nanoseconds since the epoch (as \<^verbatim>\<open>pd.to_datetime\<close> does) and
  nothing else; the clock stands at 0.
\<close>

definition num_to_datetime :: "jval \<Rightarrow> int option" where
  "num_to_datetime v = (case v of JNum n \<Rightarrow> Some n | _ \<Rightarrow> None)"

definition ok_response :: "json_row list \<Rightarrow> response" where
  "ok_response rs = \<lparr>r_status_code = 200, r_text = [], r_json = rs\<rparr>"

definition err_response :: "nat \<Rightarrow> string \<Rightarrow> response" where
  "err_response code msg = \<lparr>r_status_code = code, r_text = msg, r_json = []\<rparr>"

definition example_env :: "(request list \<Rightarrow> response) \<Rightarrow> env" where
  "example_env rem =
     \<lparr>remote = rem,
      url_of = (\<lambda>rq. ''https://data.cityofchicago.org/resource/v6vf-nfxy.json''),
      to_datetime = num_to_datetime,
      now = 0,
      strftime = (\<lambda>t. ''1970-01-01T00:00:00Z'')\<rparr>"

text \<open>A source with no records at all.\<close>

definition empty_remote :: "request list \<Rightarrow> response" where
  "empty_remote rqs = ok_response []"

text \<open>A source that answers every request with the same single record.\<close>

definition one_row_remote :: "request list \<Rightarrow> response" where
  "one_row_remote rqs = ok_response [[(''requested_datetime'', JNum 5)]]"

text \<open>
  A source that rejects every filter and whose only record has a date that does not parse.
\<close>

definition unparseable_remote :: "request list \<Rightarrow> response" where
  "unparseable_remote rqs =
     (if q_where (last rqs) \<noteq> None then err_response 400 ''no such column''
      else ok_response [[(''open_date'', JStr ''n/a''), (''sr_number'', JStr ''SR1'')]])"

text \<open>
  A source that rejects every filter and serves, at every offset, the same three records:
  one dated after the cutoff, one before it, one with a date that does not parse.
\<close>

definition mixed_rows :: "json_row list" where
  "mixed_rows =
     [[(''open_date'', JNum 5), (''sr_number'', JStr ''SR1'')],
      [(''open_date'', JNum (- 5)), (''sr_number'', JStr ''SR2'')],
      [(''open_date'', JStr ''n/a''), (''sr_number'', JStr ''SR3'')]]"

fun take_int :: "int \<Rightarrow> 'a list \<Rightarrow> 'a list" where
  "take_int n [] = []"
| "take_int n (x # xs) = (if n \<le> 0 then [] else x # take_int (n - 1) xs)"

definition mixed_remote :: "request list \<Rightarrow> response" where
  "mixed_remote rqs =
     (if q_where (last rqs) \<noteq> None then err_response 400 ''no such column''
      else ok_response (take_int (q_limit (last rqs)) mixed_rows))"

text \<open>
  A source that rejects every filter, shows \<^verbatim>\<open>open_date\<close> to the schema probe and serves
  pages of one record that has no field at all.
\<close>

definition fieldless_remote :: "request list \<Rightarrow> response" where
  "fieldless_remote rqs =
     (if q_where (last rqs) \<noteq> None then err_response 400 ''no such column''
      else if q_offset (last rqs) = None then ok_response [[(''open_date'', JNum 5)]]
      else ok_response [[]])"

text \<open>The same, with pages of one record that has a field but no candidate date column.\<close>

definition undated_remote :: "request list \<Rightarrow> response" where
  "undated_remote rqs =
     (if q_where (last rqs) \<noteq> None then err_response 400 ''no such column''
      else if q_offset (last rqs) = None then ok_response [[(''open_date'', JNum 5)]]
      else ok_response [[(''sr_number'', JStr ''SR1'')]])"

text \<open>A source that rejects every filter and fails on every page request.\<close>

definition failing_remote :: "request list \<Rightarrow> response" where
  "failing_remote rqs =
     (if q_where (last rqs) \<noteq> None then err_response 400 ''no such column''
      else if q_offset (last rqs) = None then ok_response [[(''open_date'', JNum 5)]]
      else err_response 503 ''unavailable'')"

text \<open>
  A source whose \<^verbatim>\<open>created_date\<close> is text: the raw comparison is rejected with a type
  mismatch, the cast comparison is accepted, and five records match the filter. The answers
  go by the position of the request in the fetch.
\<close>

definition dated_row :: "string \<Rightarrow> json_row" where
  "dated_row d = [(''created_date'', JStr d)]"



text \<open>
  A source that honours filter, limit and offset over five records whose \<^verbatim>\<open>created_date\<close> is
  text. It accepts one filter only, the cast comparison with the cutoff of the example
  environment ordered by the cast column, and rejects any other with a type mismatch. The
  answers go by the content of the request.
\<close>

fun drop_int :: "int \<Rightarrow> 'a list \<Rightarrow> 'a list" where
  "drop_int n [] = []"
| "drop_int n (x # xs) = (if n \<le> 0 then x # xs else drop_int (n - 1) xs)"

definition five_rows :: "json_row list" where
  "five_rows = [dated_row ''2024-01-11'', dated_row ''2024-01-12'', dated_row ''2024-01-13'',
                dated_row ''2024-01-14'', dated_row ''2024-01-15'']"

definition paged_remote :: "request list \<Rightarrow> response" where
  "paged_remote rqs =
     (let rq = last rqs;
          off = (case q_offset rq of None \<Rightarrow> 0 | Some n \<Rightarrow> n)
      in case q_where rq of
           None \<Rightarrow> ok_response (take_int (q_limit rq) (drop_int off five_rows))
         | Some w \<Rightarrow>
             if w = ''created_date::floating_timestamp >= '' @ [CHR 0x27]
                      @ ''1970-01-01T00:00:00Z'' @ [CHR 0x27]
                \<and> q_order rq = Some ''created_date::floating_timestamp''
             then ok_response (take_int (q_limit rq) (drop_int off five_rows))
             else err_response 400 ''query.soql.type-mismatch'')"

text \<open>
  A source with two candidate columns that accepts no filter and has no records to page
  through: a cast comparison on \<^verbatim>\<open>created_date\<close> fails with a server error, a raw one
  with a type mismatch, and any other filter fails for another reason. The answers go by
  the content of the request.
\<close>

definition picky_remote :: "request list \<Rightarrow> response" where
  "picky_remote rqs =
     (case q_where (last rqs) of
        None \<Rightarrow>
          if q_offset (last rqs) = None
          then ok_response [[(''created_date'', JStr ''2024-01-11''), (''open_date'', JStr ''2024-01-10'')]]
          else ok_response []
      | Some w \<Rightarrow>
          if prefix ''created_date::floating_timestamp >= '' w then err_response 500 ''internal error''
          else if prefix ''created_date >= '' w then err_response 400 ''query.soql.type-mismatch''
          else err_response 400 ''query.soql.no-such-column'')"

text \<open>
  The URL of a request as \<^verbatim>\<open>requests\<close> builds it: the parameters in the order of the
  dictionary, keys and values quoted (\<^verbatim>\<open>quote_plus\<close>: letters, digits and \<^verbatim>\<open>_.-~\<close> are
  kept, a space becomes \<^verbatim>\<open>+\<close>, any other character its \<^verbatim>\<open>%XX\<close> code).
\<close>

definition quote_char :: "char \<Rightarrow> string" where
  "quote_char c =
     (if c \<in> set ''abcdefghijklmnopqrstuvwxyzABCDEFGHIJKLMNOPQRSTUVWXYZ0123456789_.-~'' then [c]
      else if c = CHR '' '' then ''+''
      else [CHR ''%'', ''0123456789ABCDEF'' ! (of_char c div 16),
            ''0123456789ABCDEF'' ! (of_char c mod 16)])"

definition quote_plus :: "string \<Rightarrow> string" where
  "quote_plus s = concat (map quote_char s)"

definition show_int :: "int \<Rightarrow> string" where
  "show_int n = (if n < 0 then ''-'' @ show_nat (nat (- n)) else show_nat (nat n))"

definition request_url :: "request \<Rightarrow> string" where
  "request_url rq =
     ''https://data.cityofchicago.org/resource/v6vf-nfxy.json?''
     @ (case q_where rq of None \<Rightarrow> [] | Some w \<Rightarrow> ''%24where='' @ quote_plus w @ ''&'')
     @ ''%24limit='' @ show_int (q_limit rq)
     @ (case q_offset rq of None \<Rightarrow> [] | Some n \<Rightarrow> ''&%24offset='' @ show_int n)
     @ (case q_order rq of None \<Rightarrow> [] | Some c \<Rightarrow> ''&%24order='' @ quote_plus c)"

definition url_env :: "(request list \<Rightarrow> response) \<Rightarrow> env" where
  "url_env rem = (example_env rem)\<lparr>url_of := request_url\<rparr>"

text \<open>
  A source whose only column is named \<^verbatim>\<open>type-mismatch\<close>, that rejects every filter for a
  reason other than a type mismatch and has no records to page through.
\<close>

definition hyphen_remote :: "request list \<Rightarrow> response" where
  "hyphen_remote rqs =
     (if q_where (last rqs) \<noteq> None then err_response 400 ''no such column''
      else if q_offset (last rqs) = None then ok_response [[(''type-mismatch'', JStr ''2024-01-11'')]]
      else ok_response [])"

text \<open>
  A source that rejects every filter with a type mismatch, named after 800 characters of
  the response body, and has no records to page through.
\<close>

definition long_body :: string where
  "long_body = replicate 800 (CHR '' '') @ ''query.soql.type-mismatch''"

definition long_body_remote :: "request list \<Rightarrow> response" where
  "long_body_remote rqs =
     (if q_where (last rqs) \<noteq> None then err_response 400 long_body
      else if q_offset (last rqs) = None then ok_response [[(''open_date'', JNum 5)]]
      else ok_response [])"

text \<open>
  A source that rejects every filter and whose records have two of the names of
  \<^verbatim>\<open>DATE_FIELD_CANDIDATES\<close>, of which the record shown to the schema probe has only one.
\<close>

definition late_column_remote :: "request list \<Rightarrow> response" where
  "late_column_remote rqs =
     (if q_where (last rqs) \<noteq> None then err_response 400 ''no such column''
      else if q_offset (last rqs) = None then ok_response [[(''open_date'', JNum 5)]]
      else ok_response [[(''open_date'', JNum 5), (''closed_date'', JNum 7)]])"

subsection \<open>Notions used in the statements\<close>


text \<open>The status codes and the pages of a log, request by request.\<close>

definition statuses_of :: "log \<Rightarrow> (stage \<times> nat) list" where
  "statuses_of lg = map (\<lambda>x. (fst x, r_status_code (snd (snd x)))) lg"

definition pages_of :: "log \<Rightarrow> json_row list list" where
  "pages_of lg = map (\<lambda>x. r_json (snd (snd x))) lg"

text \<open>The bodies of the responses of a log, request by request.\<close>

definition texts_of :: "log \<Rightarrow> string list" where
  "texts_of lg = map (\<lambda>x. r_text (snd (snd x))) lg"

text \<open>
  The log entries of one pass of the negotiation loop for the candidate \<open>dc\<close>, after the
  requests \<open>sent\<close>: the raw probe, followed by the cast probe when the test on the message
  of the raw failure succeeds.
\<close>

definition probe_block ::
  "env \<Rightarrow> (string \<times> string) list \<Rightarrow> string \<Rightarrow> int \<Rightarrow> request list \<Rightarrow> string \<Rightarrow> log" where
  "probe_block e hs since_str chunk sent dc =
     (let raw_rq = probe_request hs (raw_where dc since_str) dc (min 5 chunk);
          raw_rs = remote e (sent @ [raw_rq]);
          cast_rq = probe_request hs (cast_where dc since_str) (cast_col dc) (min 5 chunk);
          cast_rs = remote e (sent @ [raw_rq, cast_rq])
      in if http_error raw_rs \<and> type_mismatch (exit_message e raw_rq raw_rs)
         then [(RawProbe dc, raw_rq, raw_rs), (CastProbe dc, cast_rq, cast_rs)]
         else [(RawProbe dc, raw_rq, raw_rs)])"

section \<open>Auxiliary facts\<close>

subsection \<open>Processing one page\<close>

lemma to_datetime_cell_idem:
  "to_datetime_cell e (Some (to_datetime_cell e x)) = to_datetime_cell e x"
  by (auto simp: to_datetime_cell_def split: option.splits cell.splits)

lemma to_datetime_cell_Stamp: "\<exists>t. to_datetime_cell e x = Stamp t"
  by (auto simp: to_datetime_cell_def split: option.splits cell.splits)

lemma parse_column_columns [simp]: "df_columns (parse_column e c df) = df_columns df"
  by (simp add: parse_column_def)

lemma parse_column_length [simp]: "length (df_rows (parse_column e c df)) = length (df_rows df)"
  by (simp add: parse_column_def)

lemma parse_column_cell:
  "i < length (df_rows df) \<Longrightarrow>
   map_of (df_rows (parse_column e c df) ! i) k =
     (if k = c then Some (to_datetime_cell e (map_of (df_rows df ! i) c)) else map_of (df_rows df ! i) k)"
  by (simp add: parse_column_def update_conv')

lemma parse_candidates_none:
  "\<forall>c\<in>set cs. c \<notin> set (df_columns df) \<Longrightarrow> parse_candidates e sd cs (df, b) = (df, b)"
  by (induction cs) auto

lemma parse_candidates_shape:
  "parse_candidates e sd cs (df, b) = (df', b') \<Longrightarrow>
   df_columns df' = df_columns df \<and> length (df_rows df') = length (df_rows df)"
proof (induction cs arbitrary: df b)
  case Nil then show ?case by simp
next
  case (Cons c cs)
  show ?case
  proof (cases "c \<in> set (df_columns df)")
    case True
    with Cons.prems obtain b1 where "parse_candidates e sd cs (parse_column e c df, b1) = (df', b')"
      by (auto simp: Let_def)
    from Cons.IH [OF this] show ?thesis by simp
  next
    case False
    with Cons.prems have "parse_candidates e sd cs (df, b) = (df', b')" by simp
    from Cons.IH [OF this] show ?thesis .
  qed
qed

lemma parse_candidates_cell:
  "parse_candidates e sd cs (df, b) = (df', b') \<Longrightarrow> i < length (df_rows df) \<Longrightarrow>
   map_of (df_rows df' ! i) k =
     (if k \<in> set cs \<and> k \<in> set (df_columns df)
      then Some (to_datetime_cell e (map_of (df_rows df ! i) k))
      else map_of (df_rows df ! i) k)"
proof (induction cs arbitrary: df b)
  case Nil then show ?case by simp
next
  case (Cons c cs)
  show ?case
  proof (cases "c \<in> set (df_columns df)")
    case True
    with Cons.prems obtain b1 where *: "parse_candidates e sd cs (parse_column e c df, b1) = (df', b')"
      by (auto simp: Let_def)
    have "i < length (df_rows (parse_column e c df))" using Cons.prems by simp
    from Cons.IH [OF * this] show ?thesis
      using Cons.prems(2) True by (auto simp: parse_column_cell to_datetime_cell_idem)
  next
    case False
    with Cons.prems have *: "parse_candidates e sd cs (df, b) = (df', b')" by simp
    from Cons.IH [OF * Cons.prems(2)] show ?thesis using False by auto
  qed
qed

lemma ge_since_parse_column_other:
  "i < length (df_rows df) \<Longrightarrow> k \<noteq> c \<Longrightarrow>
   ge_since sd (df_rows (parse_column e c df) ! i) k = ge_since sd (df_rows df ! i) k"
  by (simp add: ge_since_def parse_column_cell)

text \<open>\<^verbatim>\<open>any_newer\<close>: some row has, in a candidate column that is present, a stamp at or after the cutoff.\<close>

lemma parse_candidates_any_newer:
  "parse_candidates e sd cs (df, b) = (df', b') \<Longrightarrow>
   b' = (b \<or> (\<exists>c\<in>set cs. c \<in> set (df_columns df) \<and> (\<exists>r\<in>set (df_rows df'). ge_since sd r c)))"
proof (induction cs arbitrary: df b)
  case Nil then show ?case by simp
next
  case (Cons c cs)
  show ?case
  proof (cases "c \<in> set (df_columns df)")
    case True
    define df1 where "df1 = parse_column e c df"
    define b1 where "b1 = (if list_ex (\<lambda>r. notna r c) (df_rows df1) \<and> list_ex (\<lambda>r. ge_since sd r c) (df_rows df1) then True else b)"
    have *: "parse_candidates e sd cs (df1, b1) = (df', b')"
      using Cons.prems True by (simp add: Let_def df1_def b1_def)
    have ge_notna: "\<And>r. ge_since sd r c \<Longrightarrow> notna r c"
      by (auto simp: ge_since_def notna_def split: option.splits cell.splits)
    have b1': "b1 = (b \<or> (\<exists>r\<in>set (df_rows df1). ge_since sd r c))"
      using ge_notna by (auto simp: b1_def list_ex_iff)
    have len: "length (df_rows df') = length (df_rows df1)" "df_columns df1 = df_columns df"
      using parse_candidates_shape [OF *] by (simp_all add: df1_def)
    have same: "(\<exists>r\<in>set (df_rows df1). ge_since sd r c) = (\<exists>r\<in>set (df_rows df'). ge_since sd r c)"
    proof -
      have "\<And>i. i < length (df_rows df1) \<Longrightarrow> map_of (df_rows df' ! i) c = map_of (df_rows df1 ! i) c"
      proof -
        fix i assume i: "i < length (df_rows df1)"
        have "map_of (df_rows df1 ! i) c = Some (to_datetime_cell e (map_of (df_rows df ! i) c))"
          using i by (simp add: df1_def parse_column_cell)
        then show "map_of (df_rows df' ! i) c = map_of (df_rows df1 ! i) c"
          using parse_candidates_cell [OF * i, of c] by (simp add: to_datetime_cell_idem)
      qed
      then have "\<And>i. i < length (df_rows df1) \<Longrightarrow> ge_since sd (df_rows df' ! i) c = ge_since sd (df_rows df1 ! i) c"
        by (simp add: ge_since_def)
      then show ?thesis
        using len(1) by (metis in_set_conv_nth)
    qed
    from Cons.IH [OF *] show ?thesis
      using True b1' same len(2) by auto
  next
    case False
    with Cons.prems have *: "parse_candidates e sd cs (df, b) = (df', b')" by simp
    from Cons.IH [OF *] show ?thesis using False by auto
  qed
qed

lemma map2_or_map: "map2 (\<or>) (map f xs) (map g xs) = map (\<lambda>x. f x \<or> g x) xs"
  by (induction xs) auto

lemma mask_newer_char:
  assumes "\<forall>c\<in>set cs. c \<in> set (df_columns df) \<longrightarrow> dtype_kind_M df c"
  shows "mask_newer sd df cs (Some (map f (df_rows df))) =
           Some (map (\<lambda>r. f r \<or> (\<exists>c\<in>set cs. c \<in> set (df_columns df) \<and> ge_since sd r c)) (df_rows df))"
  using assms
proof (induction cs arbitrary: f)
  case Nil then show ?case by simp
next
  case (Cons c cs)
  show ?case
  proof (cases "c \<in> set (df_columns df)")
    case True
    then have k: "dtype_kind_M df c" using Cons.prems by simp
    have "mask_newer sd df (c # cs) (Some (map f (df_rows df))) =
          mask_newer sd df cs (Some (map (\<lambda>r. f r \<or> ge_since sd r c) (df_rows df)))"
      using True k by (simp add: Let_def map2_or_map)
    also have "\<dots> = Some (map (\<lambda>r. (f r \<or> ge_since sd r c) \<or> (\<exists>c\<in>set cs. c \<in> set (df_columns df) \<and> ge_since sd r c)) (df_rows df))"
      using Cons.IH Cons.prems by simp
    finally show ?thesis using True by (auto intro!: map_cong)
  next
    case False
    then show ?thesis using Cons by auto
  qed
qed

lemma mask_newer_None:
  assumes "\<forall>c\<in>set cs. c \<in> set (df_columns df) \<longrightarrow> dtype_kind_M df c"
  shows "mask_newer sd df cs None =
           (if \<exists>c\<in>set cs. c \<in> set (df_columns df)
            then Some (map (\<lambda>r. \<exists>c\<in>set cs. c \<in> set (df_columns df) \<and> ge_since sd r c) (df_rows df))
            else None)"
  using assms
proof (induction cs)
  case Nil then show ?case by simp
next
  case (Cons c cs)
  show ?case
  proof (cases "c \<in> set (df_columns df)")
    case True
    then have k: "dtype_kind_M df c" using Cons.prems by simp
    have "mask_newer sd df (c # cs) None = mask_newer sd df cs (Some (map (\<lambda>r. ge_since sd r c) (df_rows df)))"
      using True k by (simp add: Let_def)
    also have "\<dots> = Some (map (\<lambda>r. ge_since sd r c \<or> (\<exists>c\<in>set cs. c \<in> set (df_columns df) \<and> ge_since sd r c)) (df_rows df))"
      using mask_newer_char [of cs df sd "\<lambda>r. ge_since sd r c"] Cons.prems by simp
    finally show ?thesis using True by (auto intro!: map_cong)
  next
    case False
    then show ?thesis using Cons by auto
  qed
qed

lemma select_rows_map: "select_rows df (map P (df_rows df)) = df\<lparr>df_rows := filter P (df_rows df)\<rparr>"
proof -
  have "map fst (filter snd (zip xs (map P xs))) = filter P xs" for xs :: "row list"
    by (induction xs) auto
  then show ?thesis by (simp add: select_rows_def)
qed

lemma DataFrame_rows_nth:
  "i < length rows \<Longrightarrow> map_of (df_rows (DataFrame rows) ! i) k = map_option Raw (map_of (rows ! i) k)"
proof -
  have "map_of (map (\<lambda>(k, v). (k, Raw v)) al) k = map_option Raw (map_of al k)" for al :: json_row
    by (induction al) auto
  then show "i < length rows \<Longrightarrow> ?thesis" by (simp add: DataFrame_def)
qed

lemma DataFrame_length [simp]: "length (df_rows (DataFrame rows)) = length rows"
  by (simp add: DataFrame_def)

lemma DataFrame_columns: "set (df_columns (DataFrame rows)) = (\<Union>r\<in>set rows. fst ` set r)"
  by (auto simp: DataFrame_def uniq_def)

lemma DataFrame_absent:
  "raw \<in> set rows \<Longrightarrow> k \<notin> set (df_columns (DataFrame rows)) \<Longrightarrow> map_of raw k = None"
  by (force simp: DataFrame_columns map_of_eq_None_iff)

text \<open>What \<open>process_page\<close> computes, by cases on whether a candidate column is on the page.\<close>

lemma process_page_no_candidate:
  assumes "\<forall>c\<in>set cs. c \<notin> set (df_columns (DataFrame rows))"
  shows "process_page e sd cs rows = (DataFrame rows, False)"
proof -
  have a: "parse_candidates e sd cs (DataFrame rows, False) = (DataFrame rows, False)"
    using assms by (rule parse_candidates_none)
  have "mask_newer sd (DataFrame rows) cs None = None"
    using assms by (subst mask_newer_None) auto
  then show ?thesis by (simp add: process_page_def a)
qed

lemma process_page_candidate:
  assumes "\<exists>c\<in>set cs. c \<in> set (df_columns (DataFrame rows))"
    and "process_page e sd cs rows = (kept, an)"
  shows "\<exists>df'. parse_candidates e sd cs (DataFrame rows, False) = (df', an)
           \<and> df_columns kept = df_columns (DataFrame rows)
           \<and> df_rows kept = filter (\<lambda>r. \<exists>c\<in>set cs. c \<in> set (df_columns (DataFrame rows)) \<and> ge_since sd r c) (df_rows df')
           \<and> an = (df_rows kept \<noteq> [])"
proof -
  obtain df' b where pc: "parse_candidates e sd cs (DataFrame rows, False) = (df', b)"
    by (cases "parse_candidates e sd cs (DataFrame rows, False)")
  have shape: "df_columns df' = df_columns (DataFrame rows)" "length (df_rows df') = length rows"
    using parse_candidates_shape [OF pc] by simp_all
  have kind: "\<forall>c\<in>set cs. c \<in> set (df_columns df') \<longrightarrow> dtype_kind_M df' c"
  proof (intro ballI impI)
    fix c assume c: "c \<in> set cs" "c \<in> set (df_columns df')"
    have "\<And>i. i < length (df_rows df') \<Longrightarrow> \<exists>t. map_of (df_rows df' ! i) c = Some (Stamp t)"
      using parse_candidates_cell [OF pc, of _ c] c shape to_datetime_cell_Stamp by simp
    then show "dtype_kind_M df' c"
      by (fastforce simp: dtype_kind_M_def list_all_length)
  qed
  have m: "mask_newer sd df' cs None =
             Some (map (\<lambda>r. \<exists>c\<in>set cs. c \<in> set (df_columns df') \<and> ge_since sd r c) (df_rows df'))"
    using mask_newer_None [OF kind, of sd] assms(1) shape(1) by simp
  have pp: "process_page e sd cs rows =
          (df'\<lparr>df_rows := filter (\<lambda>r. \<exists>c\<in>set cs. c \<in> set (df_columns df') \<and> ge_since sd r c) (df_rows df')\<rparr>, b)"
    by (simp add: process_page_def pc m select_rows_map)
  have b: "b = (\<exists>c\<in>set cs. c \<in> set (df_columns (DataFrame rows)) \<and> (\<exists>r\<in>set (df_rows df'). ge_since sd r c))"
    using parse_candidates_any_newer [OF pc] by simp
  have "an = b" and k: "kept = df'\<lparr>df_rows := filter (\<lambda>r. \<exists>c\<in>set cs. c \<in> set (df_columns df') \<and> ge_since sd r c) (df_rows df')\<rparr>"
    using pp assms(2) by simp_all
  moreover have "b = (df_rows kept \<noteq> [])"
    unfolding b k by (auto simp: filter_empty_conv shape(1))
  ultimately show ?thesis
    using pc shape by auto
qed

text \<open>Every kept row has a stamp at or after the cutoff or no candidate column, and is the parsed image of a received record.\<close>

lemma process_page_rows:
  assumes "process_page e sd cs rows = (kept, an)" and "r \<in> set (df_rows kept)"
  shows "((\<exists>c\<in>set cs. ge_since sd r c) \<or> (\<forall>c\<in>set cs. map_of r c = None))
       \<and> (\<exists>raw\<in>set rows. \<forall>k. map_of r k =
             (if k \<in> set cs \<and> k \<in> set (df_columns (DataFrame rows))
              then Some (to_datetime_cell e (map_option Raw (map_of raw k)))
              else map_option Raw (map_of raw k)))"
proof (cases "\<exists>c\<in>set cs. c \<in> set (df_columns (DataFrame rows))")
  case False
  then have no: "\<forall>c\<in>set cs. c \<notin> set (df_columns (DataFrame rows))" by simp
  then have k: "kept = DataFrame rows"
    using process_page_no_candidate [OF no, of e sd] assms(1) by simp
  then obtain i where i: "i < length rows" "r = df_rows (DataFrame rows) ! i"
    using assms(2) by (metis DataFrame_length in_set_conv_nth)
  have cell: "\<And>k. map_of r k = map_option Raw (map_of (rows ! i) k)"
    using i by (simp add: DataFrame_rows_nth)
  have none: "\<forall>c\<in>set cs. map_of r c = None"
    using cell no DataFrame_absent [of "rows ! i" rows] i(1) by simp
  have mem: "rows ! i \<in> set rows" using i(1) by simp
  have "\<forall>k. map_of r k =
             (if k \<in> set cs \<and> k \<in> set (df_columns (DataFrame rows))
              then Some (to_datetime_cell e (map_option Raw (map_of (rows ! i) k)))
              else map_option Raw (map_of (rows ! i) k))"
    using cell no by auto
  with none mem show ?thesis by blast
next
  case True
  from process_page_candidate [OF True assms(1)] obtain df' where
    pc: "parse_candidates e sd cs (DataFrame rows, False) = (df', an)" and
    rows: "df_rows kept = filter (\<lambda>r. \<exists>c\<in>set cs. c \<in> set (df_columns (DataFrame rows)) \<and> ge_since sd r c) (df_rows df')"
    by blast
  have r: "r \<in> set (df_rows df')" "\<exists>c\<in>set cs. ge_since sd r c"
    using assms(2) rows by auto
  have len: "length (df_rows df') = length rows"
    using parse_candidates_shape [OF pc] by simp
  then obtain i where i: "i < length rows" "r = df_rows df' ! i"
    using r(1) by (metis in_set_conv_nth)
  have "\<And>k. map_of r k =
             (if k \<in> set cs \<and> k \<in> set (df_columns (DataFrame rows))
              then Some (to_datetime_cell e (map_option Raw (map_of (rows ! i) k)))
              else map_option Raw (map_of (rows ! i) k))"
    using parse_candidates_cell [OF pc, of i] i by (simp add: DataFrame_rows_nth)
  then have "\<forall>k. map_of r k =
             (if k \<in> set cs \<and> k \<in> set (df_columns (DataFrame rows))
              then Some (to_datetime_cell e (map_option Raw (map_of (rows ! i) k)))
              else map_option Raw (map_of (rows ! i) k))" by blast
  moreover have "rows ! i \<in> set rows" using i(1) by simp
  ultimately show ?thesis using r(2) by blast
qed

subsection \<open>The loop of the Fallback Blind Pager\<close>

lemma http_get_eq:
  "http_get e lg st rq = (remote e (requests_of lg @ [rq]), lg @ [(st, rq, remote e (requests_of lg @ [rq]))])"
  by (simp add: http_get_def Let_def)

lemma blind_pages_rule:
  assumes err: "\<And>off ps kf lg rq r.
      rq = blind_request hs oc chunk off \<Longrightarrow> r = remote e (requests_of lg @ [rq]) \<Longrightarrow> http_error r \<Longrightarrow>
      P off ps kf lg (Inl (HTTPError (r_status_code r) (url_of e rq)), lg @ [(BlindPage, rq, r)])"
  and empty: "\<And>off ps kf lg rq r.
      rq = blind_request hs oc chunk off \<Longrightarrow> r = remote e (requests_of lg @ [rq]) \<Longrightarrow> \<not> http_error r \<Longrightarrow>
      r_json r = [] \<Longrightarrow> P off ps kf lg (Inr kf, lg @ [(BlindPage, rq, r)])"
  and stop: "\<And>off ps kf lg rq r kept an kf'.
      rq = blind_request hs oc chunk off \<Longrightarrow> r = remote e (requests_of lg @ [rq]) \<Longrightarrow> \<not> http_error r \<Longrightarrow>
      r_json r \<noteq> [] \<Longrightarrow> process_page e sd cs (r_json r) = (kept, an) \<Longrightarrow>
      kf' = (if \<not> df_empty kept then kf @ [kept] else kf) \<Longrightarrow>
      (\<not> an \<and> kf' \<noteq> []) \<or> mp \<le> ps + 1 \<or> int (length (r_json r)) < chunk \<Longrightarrow>
      P off ps kf lg (Inr kf', lg @ [(BlindPage, rq, r)])"
  and continue: "\<And>off ps kf lg rq r kept an kf' res.
      rq = blind_request hs oc chunk off \<Longrightarrow> r = remote e (requests_of lg @ [rq]) \<Longrightarrow> \<not> http_error r \<Longrightarrow>
      r_json r \<noteq> [] \<Longrightarrow> process_page e sd cs (r_json r) = (kept, an) \<Longrightarrow>
      kf' = (if \<not> df_empty kept then kf @ [kept] else kf) \<Longrightarrow>
      an \<or> kf' = [] \<Longrightarrow> ps + 1 < mp \<Longrightarrow> chunk \<le> int (length (r_json r)) \<Longrightarrow>
      res = blind_pages e hs oc chunk mp cs sd (off + int (length (r_json r))) (ps + 1) kf'
              (lg @ [(BlindPage, rq, r)]) \<Longrightarrow>
      P (off + int (length (r_json r))) (ps + 1) kf' (lg @ [(BlindPage, rq, r)]) res \<Longrightarrow>
      P off ps kf lg res"
  shows "P off ps kf lg (blind_pages e hs oc chunk mp cs sd off ps kf lg)"
  using assms
proof (induction e hs oc chunk mp cs sd off ps kf lg rule: blind_pages.induct)
  case (1 e hs oc chunk mp cs sd off ps kf lg)
  define rq where "rq = blind_request hs oc chunk off"
  define r where "r = remote e (requests_of lg @ [rq])"
  define lg' where "lg' = lg @ [(BlindPage, rq, r)]"
  have get: "http_get e lg BlindPage rq = (r, lg')"
    by (simp add: http_get_eq r_def lg'_def)
  obtain kept an where pp: "process_page e sd cs (r_json r) = (kept, an)"
    by (cases "process_page e sd cs (r_json r)")
  define kf' where "kf' = (if \<not> df_empty kept then kf @ [kept] else kf)"
  show ?case
  proof (cases "http_error r")
    case True
    then have "blind_pages e hs oc chunk mp cs sd off ps kf lg
                = (Inl (HTTPError (r_status_code r) (url_of e rq)), lg')"
      using get by (subst blind_pages.simps) (simp add: rq_def [symmetric] Let_def)
    then show ?thesis using "1.prems"(1) [OF rq_def r_def True] by (simp add: lg'_def)
  next
    case ok: False
    show ?thesis
    proof (cases "r_json r = []")
      case True
      then have "blind_pages e hs oc chunk mp cs sd off ps kf lg = (Inr kf, lg')"
        using get ok by (subst blind_pages.simps) (simp add: rq_def [symmetric] Let_def)
      then show ?thesis using "1.prems"(2) [OF rq_def r_def ok True] by (simp add: lg'_def)
    next
      case ne: False
      show ?thesis
      proof (cases "(\<not> an \<and> kf' \<noteq> []) \<or> mp \<le> ps + 1 \<or> int (length (r_json r)) < chunk")
        case True
        then have "blind_pages e hs oc chunk mp cs sd off ps kf lg = (Inr kf', lg')"
          using get ok ne pp
          by (subst blind_pages.simps) (auto simp add: rq_def [symmetric] Let_def kf'_def)
        then show ?thesis
          using "1.prems"(3) [OF rq_def r_def ok ne pp kf'_def True] by (simp add: lg'_def)
      next
        case False
        then have c: "an \<or> kf' = []" "ps + 1 < mp" "chunk \<le> int (length (r_json r))" by auto
        have eq: "blind_pages e hs oc chunk mp cs sd off ps kf lg
                = blind_pages e hs oc chunk mp cs sd (off + int (length (r_json r))) (ps + 1) kf' lg'"
          using get ok ne pp False
          by (subst blind_pages.simps) (auto simp add: rq_def [symmetric] Let_def kf'_def)
        have IH: "P (off + int (length (r_json r))) (ps + 1) kf' lg'
                    (blind_pages e hs oc chunk mp cs sd (off + int (length (r_json r))) (ps + 1) kf' lg')"
          apply (rule "1.IH" [where x = rq and xa = "(r, lg')" and xb = r and xc = lg'
                and xaa = "r_json r" and xd = "(kept, an)" and xe = kept and xf = an and xg = kf'])
          using get ok ne pp False "1.prems"
          by (auto simp: rq_def kf'_def)
        show ?thesis
          unfolding eq
          using "1.prems"(4) [OF rq_def r_def ok ne pp kf'_def c _ IH [unfolded lg'_def]]
          by (simp add: lg'_def)
      qed
    qed
  qed
qed

lemma blind_pages_log:
  "\<exists>new. snd (blind_pages e hs oc chunk mp cs sd off ps kf lg) = lg @ new \<and> new \<noteq> []
         \<and> (\<forall>x\<in>set new. fst x = BlindPage) \<and> int (length new) \<le> max 1 (mp - ps)"
proof (rule blind_pages_rule [where P = "\<lambda>off ps kf lg res.
         \<exists>new. snd res = lg @ new \<and> new \<noteq> [] \<and> (\<forall>x\<in>set new. fst x = BlindPage)
               \<and> int (length new) \<le> max 1 (mp - ps)"], goal_cases)
  case 1 then show ?case by simp
next
  case 2 then show ?case by simp
next
  case 3 then show ?case by simp
next
  case (4 off ps kf lg rq r kept an kf' res)
  from 4(11) obtain new where new: "snd res = (lg @ [(BlindPage, rq, r)]) @ new"
    "\<forall>x\<in>set new. fst x = BlindPage" "int (length new) \<le> max 1 (mp - (ps + 1))"
    by blast
  have "snd res = lg @ ((BlindPage, rq, r) # new)" using new(1) by simp
  moreover have "int (length ((BlindPage, rq, r) # new)) \<le> max 1 (mp - ps)"
    using new(3) 4(8) by simp
  moreover have "\<forall>x\<in>set ((BlindPage, rq, r) # new). fst x = BlindPage" using new(2) by simp
  ultimately show ?case by blast
qed

lemma blind_pages_frames:
  "\<forall>fs. fst (blind_pages e hs oc chunk mp cs sd off ps kf lg) = Inr fs \<longrightarrow>
     (\<exists>new. fs = kf @ new \<and>
        (\<forall>f\<in>set new. \<exists>rq r an. (BlindPage, rq, r) \<in> set (snd (blind_pages e hs oc chunk mp cs sd off ps kf lg))
             \<and> process_page e sd cs (r_json r) = (f, an)))"
proof (rule blind_pages_rule [where P = "\<lambda>off ps kf lg res.
         \<forall>fs. fst res = Inr fs \<longrightarrow>
           (\<exists>new. fs = kf @ new \<and>
              (\<forall>f\<in>set new. \<exists>rq r an. (BlindPage, rq, r) \<in> set (snd res)
                   \<and> process_page e sd cs (r_json r) = (f, an)))"], goal_cases)
  case 1 then show ?case by simp
next
  case 2 then show ?case by simp
next
  case (3 off ps kf lg rq r kept an kf')
  show ?case
  proof (cases "df_empty kept")
    case True then show ?thesis using 3 by simp
  next
    case False
    then have "kf' = kf @ [kept]" using 3 by simp
    then show ?thesis using 3(5) by auto
  qed
next
  case (4 off ps kf lg rq r kept an kf' res)
  have sub: "(BlindPage, rq, r) \<in> set (snd res)"
    using blind_pages_log [of e hs oc chunk mp cs sd "off + int (length (r_json r))" "ps + 1" kf'
        "lg @ [(BlindPage, rq, r)]"] 4(10) by auto
  show ?case
  proof (intro allI impI)
    fix fs assume "fst res = Inr fs"
    with 4(11) obtain new where new: "fs = kf' @ new"
      "\<forall>f\<in>set new. \<exists>rq r an. (BlindPage, rq, r) \<in> set (snd res) \<and> process_page e sd cs (r_json r) = (f, an)"
      by blast
    show "\<exists>new. fs = kf @ new \<and>
              (\<forall>f\<in>set new. \<exists>rq r an. (BlindPage, rq, r) \<in> set (snd res)
                   \<and> process_page e sd cs (r_json r) = (f, an))"
    proof (cases "df_empty kept")
      case True then show ?thesis using new 4(6) by auto
    next
      case False
      then have "fs = kf @ (kept # new)" using new(1) 4(6) by simp
      moreover have "\<forall>f\<in>set (kept # new). \<exists>rq r an. (BlindPage, rq, r) \<in> set (snd res) \<and> process_page e sd cs (r_json r) = (f, an)"
        using new(2) sub 4(5) by auto
      ultimately show ?thesis by blast
    qed
  qed
qed

lemma DataFrame_not_empty:
  "df_columns (DataFrame rows) \<noteq> [] \<Longrightarrow> rows \<noteq> [] \<and> \<not> df_empty (DataFrame rows)"
  by (auto simp: df_empty_def) (auto simp: DataFrame_def uniq_def)

text \<open>A page with columns but no candidate column ends the scan.\<close>

lemma blind_pages_no_candidate_last:
  "\<forall>i rq r. length lg \<le> i \<and> i < length (snd (blind_pages e hs oc chunk mp cs sd off ps kf lg))
       \<and> snd (blind_pages e hs oc chunk mp cs sd off ps kf lg) ! i = (BlindPage, rq, r)
       \<and> \<not> http_error r \<and> df_columns (DataFrame (r_json r)) \<noteq> []
       \<and> (\<forall>c\<in>set cs. c \<notin> set (df_columns (DataFrame (r_json r))))
     \<longrightarrow> Suc i = length (snd (blind_pages e hs oc chunk mp cs sd off ps kf lg))
         \<and> (\<exists>fs. fst (blind_pages e hs oc chunk mp cs sd off ps kf lg) = Inr (fs @ [DataFrame (r_json r)]))"
proof (rule blind_pages_rule [where P = "\<lambda>off ps kf lg res.
     \<forall>i rq r. length lg \<le> i \<and> i < length (snd res) \<and> snd res ! i = (BlindPage, rq, r)
       \<and> \<not> http_error r \<and> df_columns (DataFrame (r_json r)) \<noteq> []
       \<and> (\<forall>c\<in>set cs. c \<notin> set (df_columns (DataFrame (r_json r))))
     \<longrightarrow> Suc i = length (snd res) \<and> (\<exists>fs. fst res = Inr (fs @ [DataFrame (r_json r)]))"], goal_cases)
  case (1 off ps kf lg rq r)
  then show ?case by (auto simp: nth_append less_Suc_eq)
next
  case (2 off ps kf lg rq r)
  then show ?case by (auto simp: nth_append less_Suc_eq DataFrame_def uniq_def)
next
  case (3 off ps kf lg rq r kept an kf')
  show ?case
  proof (intro allI impI, elim conjE)
    fix i rq' and r' :: response
    assume a: "length lg \<le> i" "i < length (snd (Inr kf' :: error + frame list, lg @ [(BlindPage, rq, r)]))"
      "snd (Inr kf' :: error + frame list, lg @ [(BlindPage, rq, r)]) ! i = (BlindPage, rq', r')"
      "df_columns (DataFrame (r_json r')) \<noteq> []"
      "\<forall>c\<in>set cs. c \<notin> set (df_columns (DataFrame (r_json r')))"
    then have i: "i = length lg" by simp
    then have eq: "r' = r" using a(3) by simp
    have "process_page e sd cs (r_json r) = (DataFrame (r_json r), False)"
      using process_page_no_candidate a(5) eq by simp
    then have "kept = DataFrame (r_json r)" using 3(5) by simp
    then have "kf' = kf @ [DataFrame (r_json r)]"
      using 3(6) DataFrame_not_empty a(4) eq by simp
    then show "Suc i = length (snd (Inr kf' :: error + frame list, lg @ [(BlindPage, rq, r)]))
         \<and> (\<exists>fs. fst (Inr kf' :: error + frame list, lg @ [(BlindPage, rq, r)]) = Inr (fs @ [DataFrame (r_json r')]))"
      using i eq by simp
  qed
next
  case (4 off ps kf lg rq r kept an kf' res)
  obtain new where new: "snd res = (lg @ [(BlindPage, rq, r)]) @ new"
    using blind_pages_log [of e hs oc chunk mp cs sd "off + int (length (r_json r))" "ps + 1" kf'
        "lg @ [(BlindPage, rq, r)]"] 4(10) by auto
  show ?case
  proof (intro allI impI, elim conjE)
    fix i rq' and r' :: response
    assume a: "length lg \<le> i" "i < length (snd res)" "snd res ! i = (BlindPage, rq', r')"
      "\<not> http_error r'" "df_columns (DataFrame (r_json r')) \<noteq> []"
      "\<forall>c\<in>set cs. c \<notin> set (df_columns (DataFrame (r_json r')))"
    show "Suc i = length (snd res) \<and> (\<exists>fs. fst res = Inr (fs @ [DataFrame (r_json r')]))"
    proof (cases "i = length lg")
      case True
      then have eq: "r' = r" using a(3) new by (simp add: nth_append)
      have "process_page e sd cs (r_json r) = (DataFrame (r_json r), False)"
        using process_page_no_candidate a(6) eq by simp
      then have "kept = DataFrame (r_json r)" "\<not> an" using 4(5) by simp_all
      then have "kf' \<noteq> []" "\<not> an"
        using 4(6) DataFrame_not_empty a(5) eq by simp_all
      then show ?thesis using 4(7) by simp
    next
      case False
      then have "length (lg @ [(BlindPage, rq, r)]) \<le> i" using a(1) by simp
      then show ?thesis using 4(11) a by blast
    qed
  qed
qed

text \<open>A non-success status on a blind page request ends the scan with that error.\<close>

lemma blind_pages_error_last:
  "\<forall>i st rq r. length lg \<le> i \<and> i < length (snd (blind_pages e hs oc chunk mp cs sd off ps kf lg))
       \<and> snd (blind_pages e hs oc chunk mp cs sd off ps kf lg) ! i = (st, rq, r) \<and> http_error r
     \<longrightarrow> Suc i = length (snd (blind_pages e hs oc chunk mp cs sd off ps kf lg))
         \<and> fst (blind_pages e hs oc chunk mp cs sd off ps kf lg) = Inl (HTTPError (r_status_code r) (url_of e rq))"
proof (rule blind_pages_rule [where P = "\<lambda>off ps kf lg res.
     \<forall>i st rq r. length lg \<le> i \<and> i < length (snd res) \<and> snd res ! i = (st, rq, r) \<and> http_error r
     \<longrightarrow> Suc i = length (snd res) \<and> fst res = Inl (HTTPError (r_status_code r) (url_of e rq))"], goal_cases)
  case (1 off ps kf lg rq r)
  then show ?case by (auto simp: nth_append less_Suc_eq)
next
  case (2 off ps kf lg rq r)
  then show ?case by (auto simp: nth_append less_Suc_eq)
next
  case (3 off ps kf lg rq r kept an kf')
  then show ?case by (auto simp: nth_append less_Suc_eq)
next
  case (4 off ps kf lg rq r kept an kf' res)
  obtain new where new: "snd res = (lg @ [(BlindPage, rq, r)]) @ new"
    using blind_pages_log [of e hs oc chunk mp cs sd "off + int (length (r_json r))" "ps + 1" kf'
        "lg @ [(BlindPage, rq, r)]"] 4(10) by auto
  show ?case
  proof (intro allI impI, elim conjE)
    fix i st rq' and r' :: response
    assume a: "length lg \<le> i" "i < length (snd res)" "snd res ! i = (st, rq', r')" "http_error r'"
    show "Suc i = length (snd res) \<and> fst res = Inl (HTTPError (r_status_code r') (url_of e rq'))"
    proof (cases "i = length lg")
      case True
      then have "r' = r" using a(3) new by (simp add: nth_append)
      then show ?thesis using a(4) 4(3) by simp
    next
      case False
      then have "length (lg @ [(BlindPage, rq, r)]) \<le> i" using a(1) by simp
      then show ?thesis using 4(11) a by blast
    qed
  qed
qed

subsection \<open>The loop of the Server-Filtered Pager\<close>

text \<open>The complete trace of a run of the filtered pager that returns.\<close>

lemma filtered_pages_trace:
  assumes "filtered_pages e hs w ord chunk off frames lg = Some (res, lg')"
  shows "\<exists>rs :: response list. rs \<noteq> []
     \<and> lg' = lg @ map (\<lambda>j. (FilteredPage,
                page_request hs w ord chunk (off + int (length (concat (map r_json (take j rs))))),
                rs ! j)) [0..<length rs]
     \<and> (\<forall>j. Suc j < length rs \<longrightarrow> \<not> http_error (rs ! j) \<and> r_json (rs ! j) \<noteq> []
              \<and> chunk \<le> int (length (r_json (rs ! j))))
     \<and> (if http_error (last rs)
         then res = Inl (HTTPError (r_status_code (last rs))
                  (url_of e (page_request hs w ord chunk
                     (off + int (length (concat (map r_json (butlast rs))))))))
         else (r_json (last rs) = [] \<or> int (length (r_json (last rs))) < chunk)
              \<and> res = Inr (frames @ map DataFrame (filter (\<lambda>p. p \<noteq> []) (map r_json rs))))"
  using assms
proof (induction e hs w ord chunk off frames lg "(res, lg')" rule: filtered_pages.raw_induct)
  case (1 f e hs w ord chunk off frames lg)
  define rq where "rq = page_request hs w ord chunk off"
  define r where "r = remote e (requests_of lg @ [rq])"
  define lg1 where "lg1 = lg @ [(FilteredPage, rq, r)]"
  have get: "http_get e lg FilteredPage rq = (r, lg1)"
    by (simp add: http_get_eq r_def lg1_def)
  note body = "1.hyps"(2) [unfolded rq_def [symmetric], unfolded Let_def get fst_conv snd_conv]
  consider (stop) "http_error r \<or> r_json r = [] \<or> int (length (r_json r)) < chunk"
    | (cont) "\<not> http_error r" "r_json r \<noteq> []" "chunk \<le> int (length (r_json r))"
    by linarith
  then show ?case
  proof cases
    case stop
    have "lg' = lg1" using body stop by (auto split: if_splits)
    then have "lg' = lg @ map (\<lambda>j. (FilteredPage,
                page_request hs w ord chunk (off + int (length (concat (map r_json (take j [r]))))),
                [r] ! j)) [0..<length [r]]"
      by (simp add: lg1_def rq_def)
    moreover have "if http_error (last [r])
         then res = Inl (HTTPError (r_status_code (last [r]))
                  (url_of e (page_request hs w ord chunk
                     (off + int (length (concat (map r_json (butlast [r]))))))))
         else (r_json (last [r]) = [] \<or> int (length (r_json (last [r]))) < chunk)
              \<and> res = Inr (frames @ map DataFrame (filter (\<lambda>p. p \<noteq> []) (map r_json [r])))"
      using body stop by (auto simp: rq_def split: if_splits)
    ultimately show ?thesis
      by (intro exI [of _ "[r]"]) simp
  next
    case cont
    have rec: "f e hs w ord chunk (off + int (length (r_json r))) (frames @ [DataFrame (r_json r)]) lg1
                 = Some (res, lg')"
      using body cont by simp
    have rec': "filtered_pages e hs w ord chunk (off + int (length (r_json r)))
                  (frames @ [DataFrame (r_json r)]) lg1 = Some (res, lg')"
      using "1.prems" cont get
      by (subst (asm) filtered_pages.simps) (simp add: rq_def [symmetric] Let_def)
    from "1.hyps"(1) [OF rec rec'] obtain rs :: "response list" where rs: "rs \<noteq> []"
      "lg' = lg1 @ map (\<lambda>j. (FilteredPage,
                page_request hs w ord chunk (off + int (length (r_json r)) + int (length (concat (map r_json (take j rs))))),
                rs ! j)) [0..<length rs]"
      "\<forall>j. Suc j < length rs \<longrightarrow> \<not> http_error (rs ! j) \<and> r_json (rs ! j) \<noteq> []
              \<and> chunk \<le> int (length (r_json (rs ! j)))"
      "if http_error (last rs)
         then res = Inl (HTTPError (r_status_code (last rs))
                  (url_of e (page_request hs w ord chunk
                     (off + int (length (r_json r)) + int (length (concat (map r_json (butlast rs))))))))
         else (r_json (last rs) = [] \<or> int (length (r_json (last rs))) < chunk)
              \<and> res = Inr ((frames @ [DataFrame (r_json r)]) @ map DataFrame (filter (\<lambda>p. p \<noteq> []) (map r_json rs)))"
      by (elim exE conjE) (rule that; assumption)
    have a: "lg' = lg @ map (\<lambda>j. (FilteredPage,
                page_request hs w ord chunk (off + int (length (concat (map r_json (take j (r # rs)))))),
                (r # rs) ! j)) [0..<length (r # rs)]"
    proof -
      have "[0..<length (r # rs)] = 0 # map Suc [0..<length rs]"
        by (simp add: upt_conv_Cons map_Suc_upt del: upt_Suc)
      then show ?thesis
        by (simp add: rs(2) lg1_def rq_def comp_def add.assoc del: upt_Suc)
    qed
    have b: "\<forall>j. Suc j < length (r # rs) \<longrightarrow> \<not> http_error ((r # rs) ! j) \<and> r_json ((r # rs) ! j) \<noteq> []
              \<and> chunk \<le> int (length (r_json ((r # rs) ! j)))"
    proof (intro allI impI)
      fix j assume "Suc j < length (r # rs)"
      then show "\<not> http_error ((r # rs) ! j) \<and> r_json ((r # rs) ! j) \<noteq> []
              \<and> chunk \<le> int (length (r_json ((r # rs) ! j)))"
        using cont rs(3) by (cases j) auto
    qed
    have c: "if http_error (last (r # rs))
         then res = Inl (HTTPError (r_status_code (last (r # rs)))
                  (url_of e (page_request hs w ord chunk
                     (off + int (length (concat (map r_json (butlast (r # rs)))))))))
         else (r_json (last (r # rs)) = [] \<or> int (length (r_json (last (r # rs)))) < chunk)
              \<and> res = Inr (frames @ map DataFrame (filter (\<lambda>p. p \<noteq> []) (map r_json (r # rs))))"
      using rs(1,4) cont by (simp add: add.assoc)
    show ?thesis
      using a b c by (intro exI [of _ "r # rs"]) simp
  qed
qed (rule assms)


subsection \<open>Negotiation and the two branches of the fetch\<close>

lemma try_page_eq:
  "try_page e hs st w ord c lg =
     (if http_error (remote e (requests_of lg @ [probe_request hs w ord c]))
      then Inl (exit_message e (probe_request hs w ord c) (remote e (requests_of lg @ [probe_request hs w ord c])))
      else Inr (r_json (remote e (requests_of lg @ [probe_request hs w ord c]))),
      lg @ [(st, probe_request hs w ord c, remote e (requests_of lg @ [probe_request hs w ord c]))])"
  by (simp add: try_page_def http_get_eq Let_def)

lemma negotiate_log:
  "negotiate e hs ss chunk dcs lg = (res, lg') \<Longrightarrow>
   \<exists>new. lg' = lg @ new \<and> (\<forall>x\<in>set new. \<exists>dc\<in>set dcs. fst x = RawProbe dc \<or> fst x = CastProbe dc)"
proof (induction dcs arbitrary: lg)
  case Nil then show ?case by simp
next
  case (Cons dc dcs)
  define rq1 where "rq1 = probe_request hs (raw_where dc ss) dc (min 5 chunk)"
  define r1 where "r1 = remote e (requests_of lg @ [rq1])"
  define lg1 where "lg1 = lg @ [(RawProbe dc, rq1, r1)]"
  define rq2 where "rq2 = probe_request hs (cast_where dc ss) (cast_col dc) (min 5 chunk)"
  define r2 where "r2 = remote e (requests_of lg1 @ [rq2])"
  define lg2 where "lg2 = lg1 @ [(CastProbe dc, rq2, r2)]"
  consider (a) "lg' = lg1" | (b) "lg' = lg2"
    | (c) "negotiate e hs ss chunk dcs lg1 = (res, lg')"
    | (d) "negotiate e hs ss chunk dcs lg2 = (res, lg')"
    using Cons.prems
    by (auto simp: try_page_eq rq1_def r1_def lg1_def rq2_def r2_def lg2_def split: if_splits)
  then show ?case
  proof cases
    case a then show ?thesis by (simp add: lg1_def)
  next
    case b then show ?thesis by (simp add: lg2_def lg1_def)
  next
    case c
    from Cons.IH [OF c] obtain new where "lg' = lg1 @ new"
      "\<forall>x\<in>set new. \<exists>dc\<in>set dcs. fst x = RawProbe dc \<or> fst x = CastProbe dc" by blast
    then have "lg' = lg @ ((RawProbe dc, rq1, r1) # new)"
      "\<forall>x\<in>set ((RawProbe dc, rq1, r1) # new). \<exists>d\<in>set (dc # dcs). fst x = RawProbe d \<or> fst x = CastProbe d"
      by (auto simp: lg1_def)
    then show ?thesis by blast
  next
    case d
    from Cons.IH [OF d] obtain new where "lg' = lg2 @ new"
      "\<forall>x\<in>set new. \<exists>dc\<in>set dcs. fst x = RawProbe dc \<or> fst x = CastProbe dc" by blast
    then have "lg' = lg @ ((RawProbe dc, rq1, r1) # (CastProbe dc, rq2, r2) # new)"
      "\<forall>x\<in>set ((RawProbe dc, rq1, r1) # (CastProbe dc, rq2, r2) # new). \<exists>d\<in>set (dc # dcs). fst x = RawProbe d \<or> fst x = CastProbe d"
      by (auto simp: lg1_def lg2_def)
    then show ?thesis by blast
  qed
qed

lemma fetch_api_fallback:
  assumes "sample_columns e (mk_headers app_token) [] = (Inr cols, lg0)"
    and "choose_date_cols created_field cols = Inr dcs"
    and "negotiate e (mk_headers app_token) (strftime e (cutoff e days_back)) chunk dcs lg0 = (None, lg1)"
  shows "fetch_api e days_back chunk app_token created_field max_pages
           = Some (fallback e (mk_headers app_token) chunk max_pages cols dcs (cutoff e days_back) lg1)"
  using assms by (simp add: fetch_api_def Let_def)

lemma finish_rows:
  "finish (Inr fs, lg) = (Inr df, lg') \<Longrightarrow> df_rows df = concat (map df_rows fs) \<and> lg' = lg"
  by (auto simp: finish_def pd_concat_def empty_frame_def split: if_splits)

lemma fallback_frames:
  assumes "fallback e hs chunk mp cols dcs sd lg1 = (Inr df, lg)"
  shows "\<forall>row\<in>set (df_rows df). \<exists>rq r kept an. (BlindPage, rq, r) \<in> set lg
            \<and> process_page e sd dcs (r_json r) = (kept, an) \<and> row \<in> set (df_rows kept)"
proof -
  define oc where "oc = find (\<lambda>dc. dc \<in> set cols) dcs"
  define res where "res = blind_pages e hs oc chunk mp dcs sd 0 0 [] lg1"
  have f: "finish res = (Inr df, lg)"
    using assms by (simp add: fallback_def oc_def res_def)
  then obtain fs where fs: "fst res = Inr fs" "snd res = lg"
    by (cases res; cases "fst res") (auto simp: finish_def)
  then have rows: "df_rows df = concat (map df_rows fs)"
    using f finish_rows [of fs "snd res" df lg] by (cases res) auto
  from blind_pages_frames [of e hs oc chunk mp dcs sd 0 0 "[]" lg1] fs
  have "\<forall>f\<in>set fs. \<exists>rq r an. (BlindPage, rq, r) \<in> set lg \<and> process_page e sd dcs (r_json r) = (f, an)"
    by (auto simp: res_def [symmetric])
  then show ?thesis unfolding rows by fastforce
qed

lemma fallback_log:
  assumes "fallback e hs chunk mp cols dcs sd lg1 = (res, lg)"
  shows "\<exists>new. lg = lg1 @ new \<and> new \<noteq> [] \<and> (\<forall>x\<in>set new. fst x = BlindPage) \<and> int (length new) \<le> max 1 mp"
proof -
  define oc where "oc = find (\<lambda>dc. dc \<in> set cols) dcs"
  have "lg = snd (blind_pages e hs oc chunk mp dcs sd 0 0 [] lg1)"
    using assms by (auto simp: fallback_def oc_def finish_def Let_def split: sum.splits)
  then show ?thesis
    using blind_pages_log [of e hs oc chunk mp dcs sd 0 0 "[]" lg1] by simp
qed


lemma sample_columns_log:
  "sample_columns e hs [] = (res, lg0) \<Longrightarrow>
   \<exists>r0. lg0 = [(SchemaProbe, schema_request hs, r0)]
      \<and> (case res of Inl err \<Rightarrow> http_error r0 \<and> err = HTTPError (r_status_code r0) (url_of e (schema_request hs))
                    | Inr cols \<Rightarrow> \<not> http_error r0)"
  by (auto simp: sample_columns_def http_get_eq Let_def split: if_splits)


text \<open>The log up to the end of negotiation: the schema probe, then probes only.\<close>

lemma negotiation_prefix:
  assumes "sample_columns e hs [] = (Inr cols, lg0)"
    and "negotiate e hs ss chunk dcs lg0 = (nres, lg1)"
  shows "\<exists>r0 new. lg1 = (SchemaProbe, schema_request hs, r0) # new \<and> \<not> http_error r0
           \<and> (\<forall>x\<in>set new. \<exists>dc. fst x = RawProbe dc \<or> fst x = CastProbe dc)"
proof -
  from sample_columns_log [OF assms(1)] obtain r0 where
    "lg0 = [(SchemaProbe, schema_request hs, r0)]" "\<not> http_error r0" by auto
  moreover from negotiate_log [OF assms(2)] obtain new where
    "lg1 = lg0 @ new" "\<forall>x\<in>set new. \<exists>dc\<in>set dcs. fst x = RawProbe dc \<or> fst x = CastProbe dc" by blast
  ultimately show ?thesis by auto
qed

lemma fetch_api_cases [consumes 1, case_names schema_error config_error fallback server]:
  assumes "fetch_api e days_back chunk app_token created_field max_pages = Some (res, lg)"
  obtains
    (schema_error) r0 where "lg = [(SchemaProbe, schema_request (mk_headers app_token), r0)]"
      "http_error r0"
      "res = Inl (HTTPError (r_status_code r0) (url_of e (schema_request (mk_headers app_token))))"
  | (config_error) r0 where "lg = [(SchemaProbe, schema_request (mk_headers app_token), r0)]"
      "\<not> http_error r0"
  | (fallback) cols lg0 dcs lg1 where
      "sample_columns e (mk_headers app_token) [] = (Inr cols, lg0)"
      "choose_date_cols created_field cols = Inr dcs"
      "negotiate e (mk_headers app_token) (strftime e (cutoff e days_back)) chunk dcs lg0 = (None, lg1)"
      "fallback e (mk_headers app_token) chunk max_pages cols dcs (cutoff e days_back) lg1 = (res, lg)"
  | (server) cols lg0 dcs w ord first_rows lg1 where
      "sample_columns e (mk_headers app_token) [] = (Inr cols, lg0)"
      "choose_date_cols created_field cols = Inr dcs"
      "negotiate e (mk_headers app_token) (strftime e (cutoff e days_back)) chunk dcs lg0
         = (Some (w, ord, first_rows), lg1)"
      "server_filtered e (mk_headers app_token) chunk w ord first_rows lg1 = Some (res, lg)"
proof -
  obtain sres lg0 where s: "sample_columns e (mk_headers app_token) [] = (sres, lg0)"
    by (cases "sample_columns e (mk_headers app_token) []")
  from sample_columns_log [OF s] obtain r0 where r0:
    "lg0 = [(SchemaProbe, schema_request (mk_headers app_token), r0)]"
    "case sres of Inl err \<Rightarrow> http_error r0 \<and> err = HTTPError (r_status_code r0) (url_of e (schema_request (mk_headers app_token)))
                    | Inr cols \<Rightarrow> \<not> http_error r0" by blast
  show thesis
  proof (cases sres)
    case (Inl err)
    then have "res = Inl err" "lg = lg0" using assms s by (simp_all add: fetch_api_def)
    then show ?thesis using r0 Inl by (intro schema_error [of r0]) simp_all
  next
    case (Inr cols)
    show ?thesis
    proof (cases "choose_date_cols created_field cols")
      case (Inl err)
      then have "lg = lg0" using assms s Inr by (simp add: fetch_api_def)
      then show ?thesis using r0 Inr by (intro config_error [of r0]) simp_all
    next
      case dcs: (Inr dcs)
      obtain nres lg1 where n: "negotiate e (mk_headers app_token) (strftime e (cutoff e days_back)) chunk dcs lg0 = (nres, lg1)"
        by (cases "negotiate e (mk_headers app_token) (strftime e (cutoff e days_back)) chunk dcs lg0")
      show ?thesis
      proof (cases nres)
        case None
        then have "fallback e (mk_headers app_token) chunk max_pages cols dcs (cutoff e days_back) lg1 = (res, lg)"
          using assms s Inr dcs n by (simp add: fetch_api_def Let_def)
        then show ?thesis using fallback s Inr dcs n None by blast
      next
        case (Some t)
        obtain w ord first_rows where t: "t = (w, ord, first_rows)" by (cases t)
        then have "server_filtered e (mk_headers app_token) chunk w ord first_rows lg1 = Some (res, lg)"
          using assms s Inr dcs n Some by (simp add: fetch_api_def Let_def)
        then show ?thesis using server s Inr dcs n Some t by blast
      qed
    qed
  qed
qed

lemma finish_snd: "snd (finish p) = snd p"
  by (simp add: finish_def split: sum.splits)

lemma fallback_unfold:
  assumes "fallback e hs chunk mp cols dcs sd lg1 = (res, lg)"
  shows "\<exists>oc bres. blind_pages e hs oc chunk mp dcs sd 0 0 [] lg1 = (bres, lg)
           \<and> (res, lg) = finish (bres, lg)"
proof -
  define oc where "oc = find (\<lambda>dc. dc \<in> set cols) dcs"
  obtain bres lg' where bp: "blind_pages e hs oc chunk mp dcs sd 0 0 [] lg1 = (bres, lg')"
    by (cases "blind_pages e hs oc chunk mp dcs sd 0 0 [] lg1")
  have f: "finish (bres, lg') = (res, lg)"
    using assms bp by (simp add: fallback_def oc_def)
  then have "lg' = lg" using finish_snd [of "(bres, lg')"] by simp
  then have "blind_pages e hs oc chunk mp dcs sd 0 0 [] lg1 = (bres, lg) \<and> (res, lg) = finish (bres, lg)"
    using bp f by simp
  then show ?thesis by blast
qed

lemma server_filtered_unfold:
  assumes "server_filtered e hs chunk w ord first_rows lg1 = Some (res, lg)"
  shows "\<exists>fres. filtered_pages e hs w ord chunk (int (length first_rows))
                  (if first_rows \<noteq> [] then [DataFrame first_rows] else []) lg1 = Some (fres, lg)
           \<and> (res, lg) = finish (fres, lg)"
proof -
  have off: "(if first_rows \<noteq> [] then int (length first_rows) else 0) = int (length first_rows)"
    by simp
  from assms obtain p where p: "filtered_pages e hs w ord chunk (int (length first_rows))
                  (if first_rows \<noteq> [] then [DataFrame first_rows] else []) lg1 = Some p"
    "finish p = (res, lg)"
    unfolding server_filtered_def Let_def off by auto
  obtain fres lg' where "p = (fres, lg')" by (cases p)
  moreover then have "lg' = lg" using finish_snd [of p] p(2) by simp
  ultimately show ?thesis using p by auto
qed

lemma finish_Inl: "finish (bres, lg) = (res, lg') \<Longrightarrow> bres = Inl err \<Longrightarrow> res = Inl err"
  by (simp add: finish_def)


lemma DataFrame_rows_append:
  "df_rows (DataFrame (xs @ ys)) = df_rows (DataFrame xs) @ df_rows (DataFrame ys)"
  by (simp add: DataFrame_def)



section \<open>Properties\<close>

subsection \<open>The schema probe and the choice of candidates\<close>

lemma sorted_cols_Nil: "sorted_cols [] = []"
  by (simp add: sorted_cols_def)

lemma sample_columns_stages:
  "sample_columns e hs lg = (res, lg') \<Longrightarrow> stages_of lg' = stages_of lg @ [SchemaProbe]"
  by (auto simp: sample_columns_def http_get_def stages_of_def Let_def split: if_splits)

text \<open>
  Claim C3, as the code has it. An override that is not the empty string and is absent from
  the observed schema ends the fetch at once: the error names the override and the sorted
  columns of the schema, and the schema probe is the only request that was sent, so no
  filtered probe was issued.
\<close>

theorem override_absent_is_fatal:
  assumes "created_field = Some cf" and "cf \<noteq> []"
    and "sample_columns e (mk_headers app_token) [] = (Inr cols, lg)"
    and "cf \<notin> set cols"
  shows "fetch_api e days_back chunk app_token created_field max_pages
           = Some (Inl (OverrideNotFound cf (sorted_cols cols)), lg)
         \<and> stages_of lg = [SchemaProbe]"
proof -
  have "choose_date_cols created_field cols = Inl (OverrideNotFound cf (sorted_cols cols))"
    using assms by (simp add: choose_date_cols_def truthy_def)
  moreover have "stages_of lg = [SchemaProbe]"
    using sample_columns_stages [OF assms(3)] by (simp add: stages_of_def)
  ultimately show ?thesis
    using assms(3) by (simp add: fetch_api_def)
qed

theorem override_absent_is_fatal_witness:
  "fetch_api (example_env one_row_remote) 0 5 None (Some ''opened'') 30
     = Some (Inl (OverrideNotFound ''opened'' [''requested_datetime'']),
             [(SchemaProbe, schema_request [], one_row_remote [schema_request []])])"
proof -
  have a: "sample_columns (example_env one_row_remote) (mk_headers None) []
             = (Inr [''requested_datetime''],
                [(SchemaProbe, schema_request [], one_row_remote [schema_request []])])"
    by code_simp
  have b: "''opened'' \<notin> set [''requested_datetime'']" by simp
  have c: "sorted_cols [''requested_datetime''] = [''requested_datetime'']" by code_simp
  show ?thesis
    using override_absent_is_fatal [OF refl _ a b, of 0 5 30] c by simp
qed

text \<open>
  Claim C3 as stated fails for the override \<^verbatim>\<open>""\<close>: \<^verbatim>\<open>if created_field:\<close> takes
  it for no override. The schema has no column of that name, and yet the fetch probes
  \<^verbatim>\<open>requested_datetime\<close> with a filter and returns rows.
\<close>

theorem empty_override_not_fatal:
  "fst (sample_columns (example_env one_row_remote) (mk_headers None) [])
     = Inr [''requested_datetime'']
   \<and> [] \<notin> set [''requested_datetime'']
   \<and> map_option fst (fetch_api (example_env one_row_remote) 0 5 None (Some []) 30)
       = Some (Inr \<lparr>df_columns = [''requested_datetime''],
                    df_rows = [[(''requested_datetime'', Raw (JNum 5))],
                               [(''requested_datetime'', Raw (JNum 5))]]\<rparr>)
   \<and> map_option (stages_of \<circ> snd) (fetch_api (example_env one_row_remote) 0 5 None (Some []) 30)
       = Some [SchemaProbe, RawProbe ''requested_datetime'', FilteredPage]"
  by code_simp

text \<open>
  Claim C8, as the code has it. When the schema probe succeeds with zero records,
  \<^verbatim>\<open>_sample_columns\<close> returns the empty set of field names, and the column matching that
  follows finds nothing and ends the fetch with a fatal diagnostic: the override is reported
  as not found when one was given, otherwise no suitable date column is reported, with the
  candidate list and the empty schema. Nothing but the schema probe was sent.
\<close>

theorem schema_probe_zero_records:
  assumes "\<not> http_error (remote e [schema_request (mk_headers app_token)])"
    and "r_json (remote e [schema_request (mk_headers app_token)]) = []"
  shows "\<exists>lg. sample_columns e (mk_headers app_token) [] = (Inr [], lg)
           \<and> stages_of lg = [SchemaProbe]
           \<and> fetch_api e days_back chunk app_token created_field max_pages
               = Some (Inl (if truthy created_field
                            then OverrideNotFound (the created_field) []
                            else NoDateColumn DATE_FIELD_CANDIDATES []), lg)"
  using assms
  by (simp add: fetch_api_def sample_columns_def http_get_def requests_of_def stages_of_def
        choose_date_cols_def sorted_cols_Nil Let_def)

theorem schema_probe_zero_records_witness:
  "\<exists>lg. sample_columns (example_env empty_remote) (mk_headers None) [] = (Inr [], lg)
           \<and> stages_of lg = [SchemaProbe]
           \<and> fetch_api (example_env empty_remote) 0 50000 None None 30
               = Some (Inl (NoDateColumn DATE_FIELD_CANDIDATES []), lg)"
proof -
  have a: "\<not> http_error (remote (example_env empty_remote) [schema_request (mk_headers None)])"
    by code_simp
  have b: "r_json (remote (example_env empty_remote) [schema_request (mk_headers None)]) = []"
    by code_simp
  have c: "\<not> truthy None" by (simp add: truthy_def)
  show ?thesis
    using schema_probe_zero_records [OF a b, of 0 50000 None 30] c by simp
qed

text \<open>
  Claim C8 as stated fails: with zero records and no override the "nothing found" of the
  column matching is the fatal exit \<^verbatim>\<open>No suitable date column found\<close>.
\<close>

theorem zero_records_fatal:
  "map_option fst (fetch_api (example_env empty_remote) 0 50000 None None 30)
     = Some (Inl (NoDateColumn DATE_FIELD_CANDIDATES []))"
  by code_simp

subsection \<open>The Fallback Blind Pager\<close>

text \<open>
  Claim C1 says that a page whose rows have no parseable date in any candidate column is
  kept whole. The code keeps a page whole only when \<^verbatim>\<open>mask_newer\<close> stays \<^verbatim>\<open>None\<close>,
  and a candidate column that is present makes it a mask even when every value of the
  column is NaT. Here the only page has one record, whose \<^verbatim>\<open>open_date\<close> does not parse:
  the page is dropped and the fetch returns the empty frame.
\<close>

theorem unparseable_page_dropped:
  "process_page (example_env unparseable_remote) 0 [''open_date'']
       [[(''open_date'', JStr ''n/a''), (''sr_number'', JStr ''SR1'')]]
     = (\<lparr>df_columns = [''open_date'', ''sr_number''], df_rows = []\<rparr>, False)
   \<and> map_option fst (fetch_api (example_env unparseable_remote) 0 50000 None None 30)
       = Some (Inr empty_frame)
   \<and> map_option (stages_of \<circ> snd) (fetch_api (example_env unparseable_remote) 0 50000 None None 30)
       = Some [SchemaProbe, RawProbe ''open_date'', BlindPage]"
  by code_simp

text \<open>
  Claim C2. In a fetch that uses the Fallback Blind Pager (the schema probe succeeded, a
  candidate list was chosen, negotiation found no filter), every returned record has a
  candidate column holding a parsed timestamp at or after the cutoff, or else it has no
  candidate column at all, so that none parsed (the page kept whole).
\<close>

theorem fallback_rows_at_or_after_cutoff:
  assumes "sample_columns e (mk_headers app_token) [] = (Inr cols, lg0)"
    and "choose_date_cols created_field cols = Inr date_cols_to_try"
    and "negotiate e (mk_headers app_token) (strftime e (cutoff e days_back)) chunk
           date_cols_to_try lg0 = (None, lg1)"
    and "fetch_api e days_back chunk app_token created_field max_pages = Some (Inr df, lg)"
  shows "\<forall>r\<in>set (df_rows df).
           (\<exists>c\<in>set date_cols_to_try. \<exists>t. map_of r c = Some (Stamp (Some t)) \<and> cutoff e days_back \<le> t)
         \<or> (\<forall>c\<in>set date_cols_to_try. map_of r c = None)"
proof
  fix r assume r: "r \<in> set (df_rows df)"
  have fb: "fallback e (mk_headers app_token) chunk max_pages cols date_cols_to_try (cutoff e days_back) lg1 = (Inr df, lg)"
    using fetch_api_fallback [OF assms(1-3), of max_pages] assms(4) by simp
  from bspec [OF fallback_frames [OF fb] r] obtain rs :: response and kept an where
    "process_page e (cutoff e days_back) date_cols_to_try (r_json rs) = (kept, an)" "r \<in> set (df_rows kept)"
    by blast
  from process_page_rows [OF this]
  have "(\<exists>c\<in>set date_cols_to_try. ge_since (cutoff e days_back) r c) \<or> (\<forall>c\<in>set date_cols_to_try. map_of r c = None)"
    by blast
  moreover have "ge_since (cutoff e days_back) r c \<Longrightarrow> \<exists>t. map_of r c = Some (Stamp (Some t)) \<and> cutoff e days_back \<le> t" for c
    by (auto simp: ge_since_def split: option.splits cell.splits)
  ultimately show "(\<exists>c\<in>set date_cols_to_try. \<exists>t. map_of r c = Some (Stamp (Some t)) \<and> cutoff e days_back \<le> t)
         \<or> (\<forall>c\<in>set date_cols_to_try. map_of r c = None)"
    by blast
qed

theorem fallback_rows_at_or_after_cutoff_witness:
  "map_option fst (fetch_api (example_env mixed_remote) 0 50000 None None 30)
     = Some (Inr \<lparr>df_columns = [''open_date'', ''sr_number''],
                  df_rows = [[(''open_date'', Stamp (Some 5)), (''sr_number'', Raw (JStr ''SR1''))]]\<rparr>)
   \<and> ((\<exists>c\<in>set [''open_date'']. \<exists>t.
          map_of [(''open_date'', Stamp (Some 5)), (''sr_number'', Raw (JStr ''SR1''))] c
            = Some (Stamp (Some t))
          \<and> cutoff (example_env mixed_remote) 0 \<le> t)
       \<or> (\<forall>c\<in>set [''open_date''].
            map_of [(''open_date'', Stamp (Some 5)), (''sr_number'', Raw (JStr ''SR1''))] c = None))"
proof -
  let ?e = "example_env mixed_remote"
  let ?df = "\<lparr>df_columns = [''open_date'', ''sr_number''],
                  df_rows = [[(''open_date'', Stamp (Some 5)), (''sr_number'', Raw (JStr ''SR1''))]]\<rparr>"
  have a: "sample_columns ?e (mk_headers None) []
             = (Inr [''open_date'', ''sr_number''], snd (sample_columns ?e (mk_headers None) []))"
    by (simp add: prod_eq_iff) code_simp
  have b: "choose_date_cols None [''open_date'', ''sr_number''] = Inr [''open_date'']"
    by code_simp
  have c: "negotiate ?e (mk_headers None) (strftime ?e (cutoff ?e 0)) 50000 [''open_date'']
             (snd (sample_columns ?e (mk_headers None) []))
           = (None, snd (negotiate ?e (mk_headers None) (strftime ?e (cutoff ?e 0)) 50000 [''open_date'']
             (snd (sample_columns ?e (mk_headers None) []))))"
    by (simp add: prod_eq_iff) code_simp
  have d: "map_option fst (fetch_api ?e 0 50000 None None 30) = Some (Inr ?df)"
    by code_simp
  then obtain lg where d': "fetch_api ?e 0 50000 None None 30 = Some (Inr ?df, lg)"
    by (cases "fetch_api ?e 0 50000 None None 30") auto
  have m: "[(''open_date'', Stamp (Some 5)), (''sr_number'', Raw (JStr ''SR1''))] \<in> set (df_rows ?df)"
    by simp
  show ?thesis
    using bspec [OF fallback_rows_at_or_after_cutoff [OF a b c d'] m] d by blast
qed

text \<open>
  Claim C5, as the code has it. The cap is tested after a page has been processed, so a
  fetch that uses the Fallback Blind Pager sends at most \<open>max 1 max_pages\<close> page requests
  (and every page it scans is the answer to one of them): at most \<open>max_pages\<close> when that
  is 1 or more, and one when it is 0 or negative. The fetch always returns.
\<close>

theorem fallback_page_cap:
  assumes "sample_columns e (mk_headers app_token) [] = (Inr cols, lg0)"
    and "choose_date_cols created_field cols = Inr date_cols_to_try"
    and "negotiate e (mk_headers app_token) (strftime e (cutoff e days_back)) chunk
           date_cols_to_try lg0 = (None, lg1)"
  shows "\<exists>res lg. fetch_api e days_back chunk app_token created_field max_pages = Some (res, lg)
           \<and> int (count_list (stages_of lg) BlindPage) \<le> max 1 max_pages"
proof -
  obtain res lg where fb: "fallback e (mk_headers app_token) chunk max_pages cols date_cols_to_try (cutoff e days_back) lg1 = (res, lg)"
    by (cases "fallback e (mk_headers app_token) chunk max_pages cols date_cols_to_try (cutoff e days_back) lg1")
  from fallback_log [OF fb] obtain new where new: "lg = lg1 @ new" "\<forall>x\<in>set new. fst x = BlindPage"
    "int (length new) \<le> max 1 max_pages" by blast
  from negotiate_log [OF assms(3)] obtain pr where pr: "lg1 = lg0 @ pr"
    "\<forall>x\<in>set pr. \<exists>dc\<in>set date_cols_to_try. fst x = RawProbe dc \<or> fst x = CastProbe dc" by blast
  have s0: "stages_of lg0 = [SchemaProbe]"
    using sample_columns_stages [OF assms(1)] by (simp add: stages_of_def)
  have "count_list (map fst pr) BlindPage = 0"
    using pr(2) by (induction pr) auto
  moreover have "count_list (map fst new) BlindPage = length new"
    using new(2) by (induction new) auto
  ultimately have "count_list (stages_of lg) BlindPage = length new"
    using s0 by (simp add: stages_of_def new(1) pr(1))
  then show ?thesis
    using fetch_api_fallback [OF assms, of max_pages] fb new(3) by simp
qed

theorem fallback_page_cap_witness:
  "\<exists>res lg. fetch_api (example_env mixed_remote) 0 3 None None 2 = Some (res, lg)
           \<and> int (count_list (stages_of lg) BlindPage) \<le> max 1 2"
proof -
  let ?e = "example_env mixed_remote"
  have a: "sample_columns ?e (mk_headers None) []
             = (Inr [''open_date'', ''sr_number''], snd (sample_columns ?e (mk_headers None) []))"
    by (simp add: prod_eq_iff) code_simp
  have b: "choose_date_cols None [''open_date'', ''sr_number''] = Inr [''open_date'']"
    by code_simp
  have c: "negotiate ?e (mk_headers None) (strftime ?e (cutoff ?e 0)) 3 [''open_date'']
             (snd (sample_columns ?e (mk_headers None) []))
           = (None, snd (negotiate ?e (mk_headers None) (strftime ?e (cutoff ?e 0)) 3 [''open_date'']
             (snd (sample_columns ?e (mk_headers None) []))))"
    by (simp add: prod_eq_iff) code_simp
  show ?thesis
    using fallback_page_cap [OF a b c, of 2] by simp
qed

text \<open>
  Claim C5 as stated fails for a maximum of 0: one page is requested and scanned.
\<close>

theorem zero_cap_scans_one_page:
  "map_option (\<lambda>p. count_list (stages_of (snd p)) BlindPage)
     (fetch_api (example_env mixed_remote) 0 3 None None 0) = Some 1"
  by code_simp

text \<open>
  Claim C9, as the code has it. In a fetch that uses the Fallback Blind Pager, a page that
  has at least one field and on which no candidate date column is present is the last page
  requested: it is kept in full and unparsed, it is not counted as newer, and so the
  early-stop test holds right after it. (A page whose records have no field at all makes an
  empty frame for \<^verbatim>\<open>kept.empty\<close>; it is left out of the statement.)
\<close>

theorem page_without_candidate_is_last:
  assumes "sample_columns e (mk_headers app_token) [] = (Inr cols, lg0)"
    and "choose_date_cols created_field cols = Inr date_cols_to_try"
    and "negotiate e (mk_headers app_token) (strftime e (cutoff e days_back)) chunk
           date_cols_to_try lg0 = (None, lg1)"
    and run: "fetch_api e days_back chunk app_token created_field max_pages = Some (res, lg)"
    and i: "i < length lg" and ent: "lg ! i = (BlindPage, rq, r)" and ok: "\<not> http_error r"
    and cols: "df_columns (DataFrame (r_json r)) \<noteq> []"
    and none: "\<forall>c\<in>set date_cols_to_try. c \<notin> set (df_columns (DataFrame (r_json r)))"
  shows "Suc i = length lg
       \<and> process_page e (cutoff e days_back) date_cols_to_try (r_json r) = (DataFrame (r_json r), False)
       \<and> (\<exists>fs. res = Inr (pd_concat (fs @ [DataFrame (r_json r)])))"
proof -
  have fb: "fallback e (mk_headers app_token) chunk max_pages cols date_cols_to_try (cutoff e days_back) lg1 = (res, lg)"
    using fetch_api_fallback [OF assms(1-3), of max_pages] run by simp
  from negotiation_prefix [OF assms(1,3)] obtain r0 new where pre:
    "lg1 = (SchemaProbe, schema_request (mk_headers app_token), r0) # new"
    "\<forall>x\<in>set new. \<exists>dc. fst x = RawProbe dc \<or> fst x = CastProbe dc" by blast
  from fallback_unfold [OF fb] obtain oc bres where bp:
    "blind_pages e (mk_headers app_token) oc chunk max_pages date_cols_to_try (cutoff e days_back) 0 0 [] lg1 = (bres, lg)"
    "(res, lg) = finish (bres, lg)" by blast
  from blind_pages_log [of e "mk_headers app_token" oc chunk max_pages date_cols_to_try "cutoff e days_back" 0 0 "[]" lg1]
  obtain new2 where n2: "lg = lg1 @ new2" using bp(1) by auto
  have "\<forall>x\<in>set lg1. fst x \<noteq> BlindPage" using pre by auto
  then have ge: "length lg1 \<le> i"
    using ent n2 by (metis fst_conv leI nth_append nth_mem)
  with blind_pages_no_candidate_last [of lg1 e "mk_headers app_token" oc chunk max_pages date_cols_to_try "cutoff e days_back" 0 0 "[]"]
  have "Suc i = length lg \<and> (\<exists>fs. bres = Inr (fs @ [DataFrame (r_json r)]))"
    using bp(1) i ent ok cols none by auto
  moreover have "process_page e (cutoff e days_back) date_cols_to_try (r_json r) = (DataFrame (r_json r), False)"
    using process_page_no_candidate [OF none] .
  ultimately show ?thesis using bp(2) by (auto simp: finish_def)
qed

theorem page_without_candidate_is_last_witness:
  "map_option fst (fetch_api (example_env undated_remote) 0 1 None None 3)
     = Some (Inr (pd_concat ([] @ [DataFrame [[(''sr_number'', JStr ''SR1'')]]])))
   \<and> map_option (pages_of \<circ> snd) (fetch_api (example_env undated_remote) 0 1 None None 3)
       = Some [[[(''open_date'', JNum 5)]], [], [[(''sr_number'', JStr ''SR1'')]]]
   \<and> map_option (length \<circ> snd) (fetch_api (example_env undated_remote) 0 1 None None 3) = Some (Suc 2)
   \<and> process_page (example_env undated_remote) (cutoff (example_env undated_remote) 0) [''open_date'']
         [[(''sr_number'', JStr ''SR1'')]]
       = (DataFrame [[(''sr_number'', JStr ''SR1'')]], False)"
proof -
  let ?e = "example_env undated_remote"
  have a: "sample_columns ?e (mk_headers None) []
             = (Inr [''open_date''], snd (sample_columns ?e (mk_headers None) []))"
    by (simp add: prod_eq_iff) code_simp
  have b: "choose_date_cols None [''open_date''] = Inr [''open_date'']"
    by code_simp
  have c: "negotiate ?e (mk_headers None) (strftime ?e (cutoff ?e 0)) 1 [''open_date'']
             (snd (sample_columns ?e (mk_headers None) []))
           = (None, snd (negotiate ?e (mk_headers None) (strftime ?e (cutoff ?e 0)) 1 [''open_date'']
             (snd (sample_columns ?e (mk_headers None) []))))"
    by (simp add: prod_eq_iff) code_simp
  have s: "map_option (stages_of \<circ> snd) (fetch_api ?e 0 1 None None 3)
             = Some [SchemaProbe, RawProbe ''open_date'', BlindPage]"
    by code_simp
  have p: "map_option (pages_of \<circ> snd) (fetch_api ?e 0 1 None None 3)
             = Some [[[(''open_date'', JNum 5)]], [], [[(''sr_number'', JStr ''SR1'')]]]"
    by code_simp
  have t: "map_option (statuses_of \<circ> snd) (fetch_api ?e 0 1 None None 3)
             = Some [(SchemaProbe, 200), (RawProbe ''open_date'', 400), (BlindPage, 200)]"
    by code_simp
  from s obtain res lg where run: "fetch_api ?e 0 1 None None 3 = Some (res, lg)"
    by (cases "fetch_api ?e 0 1 None None 3") auto
  have st: "stages_of lg = [SchemaProbe, RawProbe ''open_date'', BlindPage]"
    and pg: "pages_of lg = [[[(''open_date'', JNum 5)]], [], [[(''sr_number'', JStr ''SR1'')]]]"
    and su: "statuses_of lg = [(SchemaProbe, 200), (RawProbe ''open_date'', 400), (BlindPage, 200)]"
    using s p t run by simp_all
  have len: "length lg = 3" using arg_cong [OF st, of length] by (simp add: stages_of_def)
  have e2: "fst (lg ! 2) = BlindPage"
    using arg_cong [OF st, of "\<lambda>xs. xs ! 2"] len by (simp add: stages_of_def)
  have j2: "r_json (snd (snd (lg ! 2))) = [[(''sr_number'', JStr ''SR1'')]]"
    using arg_cong [OF pg, of "\<lambda>xs. xs ! 2"] len by (simp add: pages_of_def)
  have ok: "\<not> http_error (snd (snd (lg ! 2)))"
    using arg_cong [OF su, of "\<lambda>xs. xs ! 2"] len by (simp add: statuses_of_def http_error_def)
  have ent: "lg ! 2 = (BlindPage, fst (snd (lg ! 2)), snd (snd (lg ! 2)))"
    using e2 by (simp add: prod_eq_iff)
  have cols: "df_columns (DataFrame (r_json (snd (snd (lg ! 2))))) \<noteq> []"
    unfolding j2 by code_simp
  have none: "\<forall>c\<in>set [''open_date'']. c \<notin> set (df_columns (DataFrame (r_json (snd (snd (lg ! 2))))))"
    unfolding j2 by code_simp
  have i: "2 < length lg" using len by simp
  from page_without_candidate_is_last [OF a b c run i ent ok cols none]
  have r: "Suc 2 = length lg"
    "process_page ?e (cutoff ?e 0) [''open_date''] [[(''sr_number'', JStr ''SR1'')]]
       = (DataFrame [[(''sr_number'', JStr ''SR1'')]], False)"
    unfolding j2 by blast+
  have f: "map_option fst (fetch_api ?e 0 1 None None 3)
     = Some (Inr (pd_concat ([] @ [DataFrame [[(''sr_number'', JStr ''SR1'')]]])))"
    by code_simp
  show ?thesis using r f p run by simp
qed

text \<open>
  Claim C9 as stated fails on pages of records without any field: no candidate column is
  present on them, yet nothing is kept and the scan goes on to the page cap.
\<close>

theorem fieldless_page_not_last:
  "map_option (stages_of \<circ> snd) (fetch_api (example_env fieldless_remote) 0 1 None None 3)
     = Some [SchemaProbe, RawProbe ''open_date'', BlindPage, BlindPage, BlindPage]
   \<and> map_option (pages_of \<circ> snd) (fetch_api (example_env fieldless_remote) 0 1 None None 3)
       = Some [[[(''open_date'', JNum 5)]], [], [[]], [[]], [[]]]
   \<and> map_option fst (fetch_api (example_env fieldless_remote) 0 1 None None 3)
       = Some (Inr empty_frame)"
  by code_simp

subsection \<open>Transport errors\<close>

text \<open>
  Claim C6, as the code has it. A non-success status on the schema probe or on a page
  request of either pager is fatal to the whole fetch: the fetch raises the HTTP error with
  the status code and the URL of that request, and that request is the last one sent. A
  non-success status on a negotiation probe is not fatal: the negotiator catches it, and a
  further request always follows.
\<close>

theorem transport_error_fatal_outside_negotiation:
  assumes run: "fetch_api e days_back chunk app_token created_field max_pages = Some (res, lg)"
    and i: "i < length lg" and ent: "lg ! i = (st, rq, r)" and err: "http_error r"
  shows "(st = SchemaProbe \<or> st = FilteredPage \<or> st = BlindPage \<longrightarrow>
            res = Inl (HTTPError (r_status_code r) (url_of e rq)) \<and> Suc i = length lg)
       \<and> ((\<exists>dc. st = RawProbe dc \<or> st = CastProbe dc) \<longrightarrow> Suc i < length lg)"
  using run
proof (cases rule: fetch_api_cases)
  case (schema_error r0)
  then show ?thesis using i ent by auto
next
  case (config_error r0)
  then show ?thesis using i ent err by auto
next
  case (fallback cols lg0 dcs lg1)
  from negotiation_prefix [OF fallback(1,3)] obtain r0 new where pre:
    "lg1 = (SchemaProbe, schema_request (mk_headers app_token), r0) # new" "\<not> http_error r0"
    "\<forall>x\<in>set new. \<exists>dc. fst x = RawProbe dc \<or> fst x = CastProbe dc" by blast
  from fallback_unfold [OF fallback(4)] obtain oc bres where bp:
    "blind_pages e (mk_headers app_token) oc chunk max_pages dcs (cutoff e days_back) 0 0 [] lg1 = (bres, lg)"
    "(res, lg) = finish (bres, lg)" by blast
  from blind_pages_log [of e "mk_headers app_token" oc chunk max_pages dcs "cutoff e days_back" 0 0 "[]" lg1]
  obtain new2 where n2: "lg = lg1 @ new2" "new2 \<noteq> []" "\<forall>x\<in>set new2. fst x = BlindPage"
    using bp(1) by auto
  show ?thesis
  proof (cases "i < length lg1")
    case True
    then have e1: "lg1 ! i = (st, rq, r)" using ent n2(1) by (simp add: nth_append)
    have "i \<noteq> 0" using e1 pre(1,2) err by (cases i) auto
    then obtain i' where i': "i = Suc i'" "i' < length new" using True pre(1) by (cases i) auto
    then have "(st, rq, r) \<in> set new" using e1 pre(1) by (metis nth_Cons_Suc nth_mem)
    then have "\<exists>dc. st = RawProbe dc \<or> st = CastProbe dc" using pre(3) by fastforce
    moreover have "Suc i < length lg" using True n2(1,2) by (cases new2) auto
    ultimately show ?thesis by auto
  next
    case False
    then have e2: "new2 ! (i - length lg1) = (st, rq, r)" "i - length lg1 < length new2"
      using ent i n2(1) by (auto simp: nth_append)
    then have st: "st = BlindPage" using n2(3) by (metis fst_conv nth_mem)
    have "length lg1 \<le> i" using False by simp
    with blind_pages_error_last [of lg1 e "mk_headers app_token" oc chunk max_pages dcs "cutoff e days_back" 0 0 "[]"]
    have "Suc i = length lg \<and> bres = Inl (HTTPError (r_status_code r) (url_of e rq))"
      using bp(1) i ent err by auto
    then show ?thesis using st bp(2) by (auto simp: finish_def)
  qed
next
  case (server cols lg0 dcs w ord first_rows lg1)
  from negotiation_prefix [OF server(1,3)] obtain r0 new where pre:
    "lg1 = (SchemaProbe, schema_request (mk_headers app_token), r0) # new" "\<not> http_error r0"
    "\<forall>x\<in>set new. \<exists>dc. fst x = RawProbe dc \<or> fst x = CastProbe dc" by blast
  from server_filtered_unfold [OF server(4)] obtain fres where fp:
    "filtered_pages e (mk_headers app_token) w ord chunk (int (length first_rows))
        (if first_rows \<noteq> [] then [DataFrame first_rows] else []) lg1 = Some (fres, lg)"
    "(res, lg) = finish (fres, lg)" by blast
  from filtered_pages_trace [OF fp(1)] obtain rs :: "response list" where rs: "rs \<noteq> []"
    "lg = lg1 @ map (\<lambda>j. (FilteredPage,
                page_request (mk_headers app_token) w ord chunk
                  (int (length first_rows) + int (length (concat (map r_json (take j rs))))),
                rs ! j)) [0..<length rs]"
    "\<forall>j. Suc j < length rs \<longrightarrow> \<not> http_error (rs ! j) \<and> r_json (rs ! j) \<noteq> []
              \<and> chunk \<le> int (length (r_json (rs ! j)))"
    "http_error (last rs) \<longrightarrow> fres = Inl (HTTPError (r_status_code (last rs))
                  (url_of e (page_request (mk_headers app_token) w ord chunk
                     (int (length first_rows) + int (length (concat (map r_json (butlast rs))))))))"
    by (elim exE conjE) (rule that; (assumption | simp split: if_splits))
  show ?thesis
  proof (cases "i < length lg1")
    case True
    then have e1: "lg1 ! i = (st, rq, r)" using ent rs(2) by (simp add: nth_append)
    have "i \<noteq> 0" using e1 pre(1,2) err by (cases i) auto
    then obtain i' where i': "i = Suc i'" "i' < length new" using True pre(1) by (cases i) auto
    then have "(st, rq, r) \<in> set new" using e1 pre(1) by (metis nth_Cons_Suc nth_mem)
    then have "\<exists>dc. st = RawProbe dc \<or> st = CastProbe dc" using pre(3) by fastforce
    moreover have "Suc i < length lg" using True rs(1,2) by (cases rs) auto
    ultimately show ?thesis by auto
  next
    case False
    define j where "j = i - length lg1"
    have j: "j < length rs" "i = length lg1 + j" using False i rs(2) by (auto simp: j_def)
    have e2: "(st, rq, r) = (FilteredPage,
                page_request (mk_headers app_token) w ord chunk
                  (int (length first_rows) + int (length (concat (map r_json (take j rs))))),
                rs ! j)"
      using ent j unfolding rs(2) by (simp add: nth_append del: upt_Suc)
    then have "http_error (rs ! j)" using err by simp
    then have last: "Suc j = length rs" using rs(3) j(1) by (metis Suc_lessI)
    then have jl: "j = length rs - 1" by simp
    have l: "rs ! j = last rs" "take j rs = butlast rs"
      using rs(1) unfolding jl by (simp_all add: last_conv_nth butlast_conv_take)
    then have "fres = Inl (HTTPError (r_status_code r) (url_of e rq))"
      using rs(4) e2 err by auto
    moreover have "Suc i = length lg" using j(2) last rs(2) by simp
    ultimately show ?thesis using e2 fp(2) by (auto simp: finish_def)
  qed
qed

theorem transport_error_fatal_outside_negotiation_witness:
  "map_option fst (fetch_api (example_env failing_remote) 0 1 None None 3)
     = Some (Inl (HTTPError 503 ''https://data.cityofchicago.org/resource/v6vf-nfxy.json''))
   \<and> map_option (statuses_of \<circ> snd) (fetch_api (example_env failing_remote) 0 1 None None 3)
       = Some [(SchemaProbe, 200), (RawProbe ''open_date'', 400), (BlindPage, 503)]
   \<and> map_option (length \<circ> snd) (fetch_api (example_env failing_remote) 0 1 None None 3) = Some (Suc 2)
   \<and> Suc 1 < length (snd (the (fetch_api (example_env failing_remote) 0 1 None None 3)))"
proof -
  let ?e = "example_env failing_remote"
  have s: "map_option (statuses_of \<circ> snd) (fetch_api ?e 0 1 None None 3)
             = Some [(SchemaProbe, 200), (RawProbe ''open_date'', 400), (BlindPage, 503)]"
    by code_simp
  then obtain res lg where run: "fetch_api ?e 0 1 None None 3 = Some (res, lg)"
    and st: "statuses_of lg = [(SchemaProbe, 200), (RawProbe ''open_date'', 400), (BlindPage, 503)]"
    by (cases "fetch_api ?e 0 1 None None 3") auto
  have len: "length lg = 3" using arg_cong [OF st, of length] by (simp add: statuses_of_def)
  have e2: "fst (lg ! 2) = BlindPage" "r_status_code (snd (snd (lg ! 2))) = 503"
    using arg_cong [OF st, of "\<lambda>xs. xs ! 2"] len by (simp_all add: statuses_of_def)
  have e1: "fst (lg ! 1) = RawProbe ''open_date''" "r_status_code (snd (snd (lg ! 1))) = 400"
    using arg_cong [OF st, of "\<lambda>xs. xs ! 1"] len by (simp_all add: statuses_of_def)
  have url: "url_of ?e rq = ''https://data.cityofchicago.org/resource/v6vf-nfxy.json''" for rq
    by (simp add: example_env_def)
  have ent2: "lg ! 2 = (BlindPage, fst (snd (lg ! 2)), snd (snd (lg ! 2)))"
    using e2 by (simp add: prod_eq_iff)
  have err2: "http_error (snd (snd (lg ! 2)))" using e2 by (simp add: http_error_def)
  have ent1: "lg ! 1 = (RawProbe ''open_date'', fst (snd (lg ! 1)), snd (snd (lg ! 1)))"
    using e1 by (simp add: prod_eq_iff)
  have err1: "http_error (snd (snd (lg ! 1)))" using e1 by (simp add: http_error_def)
  have i2: "2 < length lg" and i1: "1 < length lg" using len by simp_all
  have a: "res = Inl (HTTPError 503 ''https://data.cityofchicago.org/resource/v6vf-nfxy.json'')
           \<and> Suc 2 = length lg"
    using transport_error_fatal_outside_negotiation [OF run i2 ent2 err2] e2 url by simp
  have b: "Suc 1 < length lg"
    using transport_error_fatal_outside_negotiation [OF run i1 ent1 err1] by simp
  show ?thesis using a b run s by simp
qed

text \<open>
  Claim C6 as stated fails at the negotiation stage: the probe is answered with status 400
  and the fetch goes on and returns rows.
\<close>

theorem failed_probe_not_fatal:
  "map_option (statuses_of \<circ> snd) (fetch_api (example_env mixed_remote) 0 50000 None None 30)
     = Some [(SchemaProbe, 200), (RawProbe ''open_date'', 400), (BlindPage, 200)]
   \<and> map_option fst (fetch_api (example_env mixed_remote) 0 50000 None None 30)
       = Some (Inr \<lparr>df_columns = [''open_date'', ''sr_number''],
                    df_rows = [[(''open_date'', Stamp (Some 5)), (''sr_number'', Raw (JStr ''SR1''))]]\<rparr>)"
  by code_simp

subsection \<open>Negotiation\<close>



subsection \<open>The Server-Filtered Pager\<close>



subsection \<open>The cells of the returned records\<close>



end
